theory Spec2Isabelle
  imports Complex_Main
begin

section \<open>Python values used by the pipeline\<close>

text \<open>
  The two programs are \<^verbatim>\<open>lambda_function.py\<close> (validation and partitioning of one
  uploaded file) and \<^verbatim>\<open>glue_job.py\<close> (consolidation and sentiment enrichment).
  Strings are lists of characters; the string methods below agree with Python's on ASCII
  text. An exception is a value of \<open>exn\<close>, and a computation that may raise returns
  \<open>exn + 'a\<close> with \<open>Inl\<close> for the exception.
\<close>

datatype exn =
  TypeError | KeyError | AttributeError | ValueError | IndexError
  | OverflowError | ParseError | JSONDecodeError | UnicodeDecodeError | NoSuchKey | ServiceError

subsection \<open>String methods\<close>

text \<open>The ASCII whitespace of \<^verbatim>\<open>str.isspace\<close> (codes 9 to 13 and 28 to 32) and the ASCII digits.\<close>

definition isspace_char :: "char \<Rightarrow> bool" where
  "isspace_char c =
     (c \<in> set [CHR 0x09, CHR 0x0A, CHR 0x0B, CHR 0x0C, CHR 0x0D,
                CHR 0x1C, CHR 0x1D, CHR 0x1E, CHR 0x1F, CHR 0x20])"

definition isdigit_char :: "char \<Rightarrow> bool" where
  "isdigit_char c = (c \<in> set ''0123456789'')"

text \<open>\<^verbatim>\<open>s.strip()\<close>: leading and trailing whitespace removed.\<close>

definition strip :: "string \<Rightarrow> string" where
  "strip s = rev (dropWhile isspace_char (rev (dropWhile isspace_char s)))"

text \<open>\<^verbatim>\<open>s.isdigit()\<close>: at least one character, and every character a digit.\<close>

definition isdigit :: "string \<Rightarrow> bool" where
  "isdigit s = (s \<noteq> [] \<and> list_all isdigit_char s)"

primrec startswith :: "string \<Rightarrow> string \<Rightarrow> bool" where
  "startswith [] p = (p = [])"
| "startswith (c # cs) p = (case p of [] \<Rightarrow> True | d # ds \<Rightarrow> c = d \<and> startswith cs ds)"

definition endswith :: "string \<Rightarrow> string \<Rightarrow> bool" where
  "endswith s p = startswith (rev s) (rev p)"

text \<open>\<^verbatim>\<open>sub in s\<close> for two strings.\<close>

primrec contains :: "string \<Rightarrow> string \<Rightarrow> bool" where
  "contains sub [] = (sub = [])"
| "contains sub (c # cs) = (startswith (c # cs) sub \<or> contains sub cs)"

definition lower_char :: "char \<Rightarrow> char" where
  "lower_char c =
     (case map_of (zip ''ABCDEFGHIJKLMNOPQRSTUVWXYZ'' ''abcdefghijklmnopqrstuvwxyz'') c of
        None \<Rightarrow> c
      | Some d \<Rightarrow> d)"

definition lower :: "string \<Rightarrow> string" where
  "lower s = map lower_char s"

text \<open>\<^verbatim>\<open>s.split("\n")\<close>: the pieces between line feeds, never an empty list.\<close>

primrec split_lines :: "string \<Rightarrow> string list" where
  "split_lines [] = [[]]"
| "split_lines (c # cs) =
     (if c = CHR 0x0A then [] # split_lines cs
      else (c # hd (split_lines cs)) # tl (split_lines cs))"

text \<open>
  \<^verbatim>\<open>s.replace(old, new)\<close> for a non-empty \<open>old\<close>: the occurrences of \<open>old\<close> are
  replaced from the left, without overlap. (The handler only calls it with
  \<open>old = "raw/"\<close>; for an empty \<open>old\<close> the text is returned as it is, which is not
  Python's result.)
\<close>

function replace :: "string \<Rightarrow> string \<Rightarrow> string \<Rightarrow> string" where
  "replace old new s =
     (if s = [] then []
      else if old \<noteq> [] \<and> startswith s old then new @ replace old new (drop (length old) s)
      else hd s # replace old new (tl s))"
  by pat_completeness auto
termination
  by (relation "measure (\<lambda>(old, new, s). length s)") auto

declare replace.simps [simp del]

section \<open>Validation of customer records (XML)\<close>

text \<open>
  An element of an \<^verbatim>\<open>ElementTree\<close>: its tag, its text (\<open>el_text\<close>, \<open>None\<close> when the element has
  no text) and its children in document order. Attributes and tails are never read by the
  program.
\<close>

datatype xml = Element (tag: string) (el_text: "string option") (children: "xml list")

text \<open>\<^verbatim>\<open>e.find(t)\<close>: the first child with tag \<open>t\<close>.\<close>

definition find_child :: "string \<Rightarrow> xml \<Rightarrow> xml option" where
  "find_child t e = List.find (\<lambda>c. tag c = t) (children e)"

text \<open>\<^verbatim>\<open>root.findall(".//Customer")\<close>: every descendant of the root with that tag, in
  document order (the root itself is not a candidate).\<close>

fun descendants :: "xml \<Rightarrow> xml list" where
  "descendants (Element t x cs) = concat (map (\<lambda>c. c # descendants c) cs)"

definition findall_desc :: "string \<Rightarrow> xml \<Rightarrow> xml list" where
  "findall_desc t xroot = filter (\<lambda>e. tag e = t) (descendants xroot)"

text \<open>
  The loop body of \<^verbatim>\<open>process_xml_records\<close>: \<open>True\<close> when the element reaches
  \<^verbatim>\<open>valid_customers.append(cust)\<close>, \<open>False\<close> when one of the four checks
  appends it to \<^verbatim>\<open>invalid_customers\<close> and continues.
\<close>

definition xml_customer_ok :: "xml \<Rightarrow> bool" where
  "xml_customer_ok cust =
     (case (find_child ''CustomerID'' cust, find_child ''Name'' cust, find_child ''City'' cust) of
        (Some cid, Some name, Some city) \<Rightarrow>
          (if (case el_text cid of None \<Rightarrow> True | Some t \<Rightarrow> t = [] \<or> \<not> isdigit (strip t)) then False
           else if (case el_text name of None \<Rightarrow> True | Some t \<Rightarrow> t = [] \<or> strip t = []) then False
           else if (case el_text city of None \<Rightarrow> True | Some t \<Rightarrow> t = [] \<or> strip t = []) then False
           else True)
      | _ \<Rightarrow> False)"

fun xml_loop :: "xml list \<Rightarrow> xml list \<Rightarrow> xml list \<Rightarrow> xml list \<times> xml list" where
  "xml_loop [] valid_customers invalid_customers = (valid_customers, invalid_customers)"
| "xml_loop (cust # rest) valid_customers invalid_customers =
     (if xml_customer_ok cust then xml_loop rest (valid_customers @ [cust]) invalid_customers
      else xml_loop rest valid_customers (invalid_customers @ [cust]))"

text \<open>
  The body of a stored object is represented by the document it denotes: a well-formed
  XML document (its root element), a JSON text (its value), a CSV text (the rows
  \<^verbatim>\<open>csv.DictReader\<close> yields), any other text, or bytes that are not UTF-8. Writing a
  document and parsing it back is the identity on documents; a text of one format is a
  parse error for the parser of another.
\<close>

type_synonym csv_row = "(string \<times> string option) list"

datatype pyfloat = Finite rat | PosInf | NegInf | NaN

datatype json =
  JNull | JBool bool | JInt int | JFloat pyfloat | JStr string
  | JList "json list" | JDict "(string \<times> json) list"

datatype body = XmlDoc xml | JsonDoc json | CsvDoc "csv_row list" | OtherText | NotUtf8

definition ET_fromstring :: "body \<Rightarrow> exn + xml" where
  "ET_fromstring content = (case content of XmlDoc xroot \<Rightarrow> Inr xroot | _ \<Rightarrow> Inl ParseError)"

definition process_xml_records :: "body \<Rightarrow> exn + (xml list \<times> xml list)" where
  "process_xml_records content =
     (case ET_fromstring content of
        Inl e \<Rightarrow> Inl e
      | Inr xroot \<Rightarrow> Inr (xml_loop (findall_desc ''Customer'' xroot) [] []))"

definition build_xml :: "xml list \<Rightarrow> xml" where
  "build_xml customers = Element ''Customers'' None customers"

section \<open>Validation of purchase records (JSON)\<close>

text \<open>
  Two library parsers are parameters of the model: \<open>float_of_str\<close> is \<^verbatim>\<open>float(s)\<close> on
  a string (\<open>None\<close> when it raises \<^verbatim>\<open>ValueError\<close>), and \<open>strptime_ok s\<close> says
  whether \<^verbatim>\<open>datetime.strptime(s, "%Y-%m-%d")\<close> returns. Floats are exact rationals,
  the two infinities and NaN; rounding is not modelled.
\<close>

record pylib =
  float_of_str :: "string \<Rightarrow> pyfloat option"
  strptime_ok :: "string \<Rightarrow> bool"

text \<open>\<^verbatim>\<open>k in rec\<close> and \<^verbatim>\<open>rec[k]\<close> for a string \<open>k\<close> and a JSON value \<open>rec\<close>.\<close>

fun py_in :: "string \<Rightarrow> json \<Rightarrow> exn + bool" where
  "py_in k (JDict kvs) = Inr (map_of kvs k \<noteq> None)"
| "py_in k (JStr s) = Inr (contains k s)"
| "py_in k (JList xs) = Inr (JStr k \<in> set xs)"
| "py_in k _ = Inl TypeError"

fun py_getitem :: "json \<Rightarrow> string \<Rightarrow> exn + json" where
  "py_getitem (JDict kvs) k = (case map_of kvs k of None \<Rightarrow> Inl KeyError | Some v \<Rightarrow> Inr v)"
| "py_getitem _ k = Inl TypeError"

text \<open>
  \<^verbatim>\<open>str(v).isdigit()\<close>: true for a string of digits and for a non-negative integer;
  the text of every other value (\<^verbatim>\<open>None\<close>, \<^verbatim>\<open>True\<close>, a float, a list, a
  dictionary, a negative integer) has a character that is not a digit.
\<close>

fun str_isdigit :: "json \<Rightarrow> bool" where
  "str_isdigit (JStr s) = isdigit s"
| "str_isdigit (JInt i) = (0 \<le> i)"
| "str_isdigit _ = False"

text \<open>\<^verbatim>\<open>float(v)\<close>; an integer too large for a double raises \<^verbatim>\<open>OverflowError\<close>.\<close>

fun py_float :: "pylib \<Rightarrow> json \<Rightarrow> exn + pyfloat" where
  "py_float lib (JFloat f) = Inr f"
| "py_float lib (JInt i) =
     (if \<bar>i\<bar> < 2 ^ 1024 - 2 ^ 970 then Inr (Finite (of_int i)) else Inl OverflowError)"
| "py_float lib (JBool b) = Inr (Finite (if b then 1 else 0))"
| "py_float lib (JStr s) =
     (case float_of_str lib s of None \<Rightarrow> Inl ValueError | Some f \<Rightarrow> Inr f)"
| "py_float lib _ = Inl TypeError"

text \<open>\<^verbatim>\<open>f <= 0\<close> on a float: every comparison with NaN is false.\<close>

fun float_le_zero :: "pyfloat \<Rightarrow> bool" where
  "float_le_zero (Finite r) = (r \<le> 0)"
| "float_le_zero NegInf = True"
| "float_le_zero PosInf = False"
| "float_le_zero NaN = False"

text \<open>\<^verbatim>\<open>v.strip()\<close>: only a string has the method.\<close>

fun py_strip :: "json \<Rightarrow> exn + string" where
  "py_strip (JStr s) = Inr (strip s)"
| "py_strip _ = Inl AttributeError"

text \<open>\<^verbatim>\<open>is_valid_date\<close>: \<^verbatim>\<open>strptime\<close> raises for a value that is not a string,
  and the bare \<^verbatim>\<open>except\<close> turns every exception into \<^verbatim>\<open>False\<close>.\<close>

fun is_valid_date :: "pylib \<Rightarrow> json \<Rightarrow> bool" where
  "is_valid_date lib (JStr date_str) = strptime_ok lib date_str"
| "is_valid_date lib _ = False"

text \<open>Python's \<^verbatim>\<open>a or b\<close> on computations that may raise: \<open>b\<close> is evaluated only
  when \<open>a\<close> returned \<^verbatim>\<open>False\<close>.\<close>

definition or_else :: "exn + bool \<Rightarrow> exn + bool \<Rightarrow> exn + bool" where
  "or_else a b = (case a of Inl e \<Rightarrow> Inl e | Inr t \<Rightarrow> if t then Inr True else b)"

definition then_do :: "exn + 'a \<Rightarrow> ('a \<Rightarrow> exn + 'b) \<Rightarrow> exn + 'b" where
  "then_do a f = (case a of Inl e \<Rightarrow> Inl e | Inr v \<Rightarrow> f v)"

definition py_not :: "exn + bool \<Rightarrow> exn + bool" where
  "py_not a = then_do a (\<lambda>t. Inr (\<not> t))"

text \<open>The condition of the \<^verbatim>\<open>if\<close> in \<^verbatim>\<open>process_json_records\<close>: \<open>Inr True\<close> when the
  record goes to \<^verbatim>\<open>invalid\<close>, \<open>Inr False\<close> when it goes to \<^verbatim>\<open>valid\<close>, \<open>Inl e\<close>
  when evaluating it raises.\<close>

definition json_rule_violated :: "pylib \<Rightarrow> json \<Rightarrow> exn + bool" where
  "json_rule_violated lib rec =
     or_else (py_not (py_in ''CustomerID'' rec))
    (or_else (then_do (py_getitem rec ''CustomerID'') (\<lambda>v. Inr (\<not> str_isdigit v)))
    (or_else (py_not (py_in ''Amount'' rec))
    (or_else (then_do (py_getitem rec ''Amount'')
                (\<lambda>v. then_do (py_float lib v) (\<lambda>f. Inr (float_le_zero f))))
    (or_else (py_not (py_in ''Product'' rec))
    (or_else (then_do (py_getitem rec ''Product'')
                (\<lambda>v. then_do (py_strip v) (\<lambda>s. Inr (s = []))))
    (or_else (py_not (py_in ''Date'' rec))
             (then_do (py_getitem rec ''Date'') (\<lambda>v. Inr (\<not> is_valid_date lib v)))))))))"

text \<open>One pass of the loop body: the \<^verbatim>\<open>except\<close> branch appends to \<^verbatim>\<open>invalid\<close>.\<close>

definition json_record_ok :: "pylib \<Rightarrow> json \<Rightarrow> bool" where
  "json_record_ok lib rec =
     (case json_rule_violated lib rec of Inl e \<Rightarrow> False | Inr violated \<Rightarrow> \<not> violated)"

fun json_loop :: "pylib \<Rightarrow> json list \<Rightarrow> json list \<Rightarrow> json list \<Rightarrow> json list \<times> json list" where
  "json_loop lib [] valid invalid = (valid, invalid)"
| "json_loop lib (rec # rest) valid invalid =
     (if json_record_ok lib rec then json_loop lib rest (valid @ [rec]) invalid
      else json_loop lib rest valid (invalid @ [rec]))"

definition json_loads :: "body \<Rightarrow> exn + json" where
  "json_loads content = (case content of JsonDoc v \<Rightarrow> Inr v | _ \<Rightarrow> Inl JSONDecodeError)"

text \<open>\<^verbatim>\<open>for rec in records\<close>: a list gives its items, a dictionary its keys, a string
  its characters; any other value is not iterable.\<close>

fun py_iter :: "json \<Rightarrow> exn + json list" where
  "py_iter (JList xs) = Inr xs"
| "py_iter (JDict kvs) = Inr (map (\<lambda>kv. JStr (fst kv)) kvs)"
| "py_iter (JStr s) = Inr (map (\<lambda>c. JStr [c]) s)"
| "py_iter _ = Inl TypeError"

definition process_json_records :: "pylib \<Rightarrow> body \<Rightarrow> exn + (json list \<times> json list)" where
  "process_json_records lib content =
     then_do (json_loads content) (\<lambda>records.
     then_do (py_iter records) (\<lambda>recs. Inr (json_loop lib recs [] [])))"

section \<open>Validation of feedback rows (CSV)\<close>

text \<open>
  A row of \<^verbatim>\<open>csv.DictReader\<close> maps the header's field names to the row's values; a
  row shorter than the header has \<^verbatim>\<open>None\<close> for the missing fields. The rows read
  from a body that is not a CSV text are not modelled (they are taken as none): no result
  of the program depends on them.
\<close>

definition DictReader :: "body \<Rightarrow> csv_row list" where
  "DictReader content = (case content of CsvDoc rows \<Rightarrow> rows | _ \<Rightarrow> [])"

definition csv_getitem :: "csv_row \<Rightarrow> string \<Rightarrow> exn + string option" where
  "csv_getitem row k = (case map_of row k of None \<Rightarrow> Inl KeyError | Some v \<Rightarrow> Inr v)"

text \<open>
  \<^verbatim>\<open>int(s)\<close> on a string: surrounding whitespace and one sign are allowed, then digits,
  with single underscores between digits.
\<close>

definition int_digits_ok :: "string \<Rightarrow> bool" where
  "int_digits_ok ds =
     (ds \<noteq> [] \<and> list_all (\<lambda>c. isdigit_char c \<or> c = CHR ''_'') ds
      \<and> isdigit_char (hd ds) \<and> isdigit_char (last ds) \<and> \<not> contains ''__'' ds)"

definition digit_of :: "char \<Rightarrow> int" where
  "digit_of c = int (length (takeWhile (\<lambda>d. d \<noteq> c) ''0123456789''))"

definition digits_value :: "string \<Rightarrow> int" where
  "digits_value ds = foldl (\<lambda>n c. 10 * n + digit_of c) 0 (filter isdigit_char ds)"

definition py_int :: "string option \<Rightarrow> exn + int" where
  "py_int v =
     (case v of
        None \<Rightarrow> Inl TypeError
      | Some s0 \<Rightarrow>
          (let s = strip s0;
               neg = (s \<noteq> [] \<and> hd s = CHR ''-'');
               ds = (if s \<noteq> [] \<and> (hd s = CHR ''-'' \<or> hd s = CHR ''+'') then tl s else s)
           in if int_digits_ok ds then Inr (if neg then - digits_value ds else digits_value ds)
              else Inl ValueError))"

definition csv_rule_violated :: "csv_row \<Rightarrow> exn + bool" where
  "csv_rule_violated row =
     or_else (then_do (csv_getitem row ''CustomerID'')
                (\<lambda>v. case v of None \<Rightarrow> Inl AttributeError | Some s \<Rightarrow> Inr (\<not> isdigit s)))
    (or_else (then_do (csv_getitem row ''Rating'') (\<lambda>v. then_do (py_int v) (\<lambda>i. Inr (i < 1))))
    (or_else (then_do (csv_getitem row ''Rating'') (\<lambda>v. then_do (py_int v) (\<lambda>i. Inr (i > 5))))
             (then_do (csv_getitem row ''Feedback'')
                (\<lambda>v. case v of None \<Rightarrow> Inl AttributeError | Some s \<Rightarrow> Inr (strip s = [])))))"

definition csv_row_ok :: "csv_row \<Rightarrow> bool" where
  "csv_row_ok row =
     (case csv_rule_violated row of Inl e \<Rightarrow> False | Inr violated \<Rightarrow> \<not> violated)"

fun csv_loop :: "csv_row list \<Rightarrow> csv_row list \<Rightarrow> csv_row list \<Rightarrow> csv_row list \<times> csv_row list" where
  "csv_loop [] valid invalid = (valid, invalid)"
| "csv_loop (row # rest) valid invalid =
     (if csv_row_ok row then csv_loop rest (valid @ [row]) invalid
      else csv_loop rest valid (invalid @ [row]))"

text \<open>
  \<^verbatim>\<open>process_csv_records\<close> runs the loop and ends without a \<^verbatim>\<open>return\<close> statement:
  its value is Python's \<^verbatim>\<open>None\<close>, here the \<open>None\<close> of the option type, whatever the
  two lists hold.
\<close>

definition process_csv_records :: "body \<Rightarrow> (csv_row list \<times> csv_row list) option" where
  "process_csv_records content =
     (let reader = DictReader content;
          (valid, invalid) = csv_loop reader [] []
      in None)"

text \<open>\<^verbatim>\<open>valid, invalid = v\<close>: unpacking \<^verbatim>\<open>None\<close> raises \<^verbatim>\<open>TypeError\<close>.\<close>

definition unpack_pair :: "('a \<times> 'b) option \<Rightarrow> exn + ('a \<times> 'b)" where
  "unpack_pair v = (case v of None \<Rightarrow> Inl TypeError | Some p \<Rightarrow> Inr p)"

section \<open>The validation stage: \<^verbatim>\<open>lambda_handler\<close>\<close>

text \<open>
  The object store holds the objects of the bucket the event names, as an association
  list from keys to bodies. \<^verbatim>\<open>put_object\<close> creates or overwrites the object at a key;
  \<^verbatim>\<open>get_object\<close> followed by \<^verbatim>\<open>decode("utf-8")\<close> raises for a missing key and for
  bytes that are not UTF-8; \<^verbatim>\<open>list_objects_v2\<close> lists every key with the prefix, once.
  Calls to the metrics service and to the job service return.
\<close>

type_synonym store = "(string \<times> body) list"

fun put_object :: "string \<Rightarrow> body \<Rightarrow> store \<Rightarrow> store" where
  "put_object k b [] = [(k, b)]"
| "put_object k b ((k', b') # s) =
     (if k = k' then (k, b) # s else (k', b') # put_object k b s)"

definition get_content :: "store \<Rightarrow> string \<Rightarrow> exn + body" where
  "get_content s k =
     (case map_of s k of
        None \<Rightarrow> Inl NoSuchKey
      | Some b \<Rightarrow> (if b = NotUtf8 then Inl UnicodeDecodeError else Inr b))"

definition list_objects_v2 :: "store \<Rightarrow> string \<Rightarrow> string list" where
  "list_objects_v2 s pre = remdups (filter (\<lambda>k. startswith k pre) (map fst s))"

record job_args =
  DQ_SCORE :: rat
  ERROR_COUNT :: nat

record lstate =
  s3 :: store
  cw_failures :: nat
  glue_runs :: "job_args list"

definition report_validation_failure :: "lstate \<Rightarrow> lstate" where
  "report_validation_failure st = st\<lparr>cw_failures := cw_failures st + 1\<rparr>"

text \<open>Lines 141 to 176: the file is validated by its extension and each non-empty side
  is written; the result is the store and the two counts of the current file.\<close>

definition partition_file ::
    "pylib \<Rightarrow> string \<Rightarrow> body \<Rightarrow> store \<Rightarrow> exn + (store \<times> nat \<times> nat)" where
  "partition_file lib key content s =
     (if endswith key ''.xml'' then
        then_do (process_xml_records content) (\<lambda>(valid, invalid).
          let s1 = (if valid \<noteq> []
                    then put_object (replace ''raw/'' ''validated/'' key) (XmlDoc (build_xml valid)) s
                    else s);
              total_valid = (if valid \<noteq> [] then length valid else 0);
              s2 = (if invalid \<noteq> []
                    then put_object (replace ''raw/'' ''error/'' key) (XmlDoc (build_xml invalid)) s1
                    else s1);
              total_invalid = (if invalid \<noteq> [] then length invalid else 0)
          in Inr (s2, total_valid, total_invalid))
      else if endswith key ''.json'' then
        then_do (process_json_records lib content) (\<lambda>(valid, invalid).
          let s1 = (if valid \<noteq> []
                    then put_object (replace ''raw/'' ''validated/'' key) (JsonDoc (JList valid)) s
                    else s);
              total_valid = (if valid \<noteq> [] then length valid else 0);
              s2 = (if invalid \<noteq> []
                    then put_object (replace ''raw/'' ''error/'' key) (JsonDoc (JList invalid)) s1
                    else s1);
              total_invalid = (if invalid \<noteq> [] then length invalid else 0)
          in Inr (s2, total_valid, total_invalid))
      else if endswith key ''.csv'' then
        then_do (unpack_pair (process_csv_records content)) (\<lambda>(valid, invalid).
          let s1 = (if valid \<noteq> []
                    then put_object (replace ''raw/'' ''validated/'' key) (CsvDoc valid) s
                    else s);
              total_valid = (if valid \<noteq> [] then length valid else 0);
              s2 = (if invalid \<noteq> []
                    then put_object (replace ''raw/'' ''error/'' key) (CsvDoc invalid) s1
                    else s1);
              total_invalid = (if invalid \<noteq> [] then length invalid else 0)
          in Inr (s2, total_valid, total_invalid))
      else Inr (s, 0, 0))"

text \<open>Lines 179 to 194 and 197 to 212: every object under the prefix is read and validated
  again; \<open>valid_in\<close> and \<open>invalid_in\<close> are what one object adds to the total.\<close>

definition valid_in :: "pylib \<Rightarrow> store \<Rightarrow> string \<Rightarrow> exn + nat" where
  "valid_in lib s file_key =
     then_do (get_content s file_key) (\<lambda>content2.
       if endswith file_key ''.xml'' then
         then_do (process_xml_records content2) (\<lambda>(valid2, _). Inr (length valid2))
       else if endswith file_key ''.json'' then
         then_do (process_json_records lib content2) (\<lambda>(valid2, _). Inr (length valid2))
       else if endswith file_key ''.csv'' then
         then_do (unpack_pair (process_csv_records content2)) (\<lambda>(valid2, _). Inr (length valid2))
       else Inr 0)"

definition invalid_in :: "pylib \<Rightarrow> store \<Rightarrow> string \<Rightarrow> exn + nat" where
  "invalid_in lib s file_key =
     then_do (get_content s file_key) (\<lambda>content2.
       if endswith file_key ''.xml'' then
         then_do (process_xml_records content2) (\<lambda>(_, invalid2). Inr (length invalid2))
       else if endswith file_key ''.json'' then
         then_do (process_json_records lib content2) (\<lambda>(_, invalid2). Inr (length invalid2))
       else if endswith file_key ''.csv'' then
         then_do (unpack_pair (process_csv_records content2)) (\<lambda>(_, invalid2). Inr (length invalid2))
       else Inr 0)"

fun rescan :: "(string \<Rightarrow> exn + nat) \<Rightarrow> string list \<Rightarrow> nat \<Rightarrow> exn + nat" where
  "rescan count [] tot = Inr tot"
| "rescan count (file_key # rest) tot =
     then_do (count file_key) (\<lambda>n. rescan count rest (tot + n))"

text \<open>Lines 215 to 219, with the float an exact rational.\<close>

definition dq_score :: "nat \<Rightarrow> nat \<Rightarrow> rat" where
  "dq_score total_valid total_invalid =
     (if total_valid + total_invalid > 0
      then (of_nat total_valid / of_nat (total_valid + total_invalid)) * 100
      else 0)"

text \<open>The two totals the handler has after both rescans, from the store and the counts
  that \<open>partition_file\<close> left.\<close>

definition scan_totals :: "pylib \<Rightarrow> store \<Rightarrow> nat \<Rightarrow> nat \<Rightarrow> exn + (nat \<times> nat)" where
  "scan_totals lib s total_valid total_invalid =
     then_do (rescan (valid_in lib s) (list_objects_v2 s ''validated/'') total_valid) (\<lambda>tv.
     then_do (rescan (invalid_in lib s) (list_objects_v2 s ''error/'') total_invalid) (\<lambda>ti.
       Inr (tv, ti)))"

text \<open>
  The handler takes the records of the event (bucket name and key of each) and the state
  of the three services, and returns the new state with the returned status or the
  exception that ended the invocation.
\<close>

definition lambda_handler :: "pylib \<Rightarrow> (string \<times> string) list \<Rightarrow> lstate \<Rightarrow> lstate \<times> (exn + string)" where
  "lambda_handler lib event st =
     (case event of
        [] \<Rightarrow> (report_validation_failure st, Inr ''No Records'')
      | record # _ \<Rightarrow>
          (let key = snd record in
           case get_content (s3 st) key of
             Inl e \<Rightarrow> (report_validation_failure st, Inr ''Failed to read file'')
           | Inr content \<Rightarrow>
               (case partition_file lib key content (s3 st) of
                  Inl e \<Rightarrow> (st, Inl e)
                | Inr (s', tv, ti) \<Rightarrow>
                    (case scan_totals lib s' tv ti of
                       Inl e \<Rightarrow> (st\<lparr>s3 := s'\<rparr>, Inl e)
                     | Inr (total_valid, total_invalid) \<Rightarrow>
                         (let st1 = st\<lparr>s3 := s'\<rparr>;
                              st2 = (if total_invalid > 0 then report_validation_failure st1 else st1);
                              st3 = (if total_valid > 0
                                     then st2\<lparr>glue_runs := glue_runs st2 @
                                            [\<lparr>DQ_SCORE = dq_score total_valid total_invalid,
                                              ERROR_COUNT = total_invalid\<rparr>]\<rparr>
                                     else st2)
                          in (st3, Inr ''Record-level processing complete''))))))"

section \<open>The consolidation stage: \<^verbatim>\<open>glue_job.py\<close>\<close>

subsection \<open>Sentiment enrichment\<close>

text \<open>
  A row of \<^verbatim>\<open>customer360_df\<close>, with the two columns the enrichment reads (the other
  columns pass through unchanged), and a row of the final dataset, which adds the
  \<^verbatim>\<open>Sentiment\<close> column; \<open>None\<close> is a null.
\<close>

record row =
  CustomerID :: string
  Feedback :: string

record profile = row +
  Sentiment :: "string option"

definition prompt_header :: string where
  "prompt_header =
     ''Classify sentiment (Positive / Negative / Neutral) for each line:'' @ [CHR 0x0A, CHR 0x0A]"

text \<open>The loop \<^verbatim>\<open>for fb in feedbacks: prompt += f"- {fb}\n"\<close>.\<close>

definition build_prompt :: "string list \<Rightarrow> string" where
  "build_prompt feedbacks =
     foldl (\<lambda>prompt fb. prompt @ ''- '' @ fb @ [CHR 0x0A]) prompt_header feedbacks"

text \<open>The body of the loop over \<^verbatim>\<open>zip(batch, text_output)\<close>: the label of one line.\<close>

definition sentiment_of :: "string \<Rightarrow> string" where
  "sentiment_of sentiment_line =
     (let s = lower sentiment_line in
      if contains ''positive'' s then ''Positive''
      else if contains ''negative'' s then ''Negative''
      else if contains ''neutral'' s then ''Neutral''
      else ''Unknown'')"

text \<open>
  \<^verbatim>\<open>batch_sentiment\<close> on one partition. The classification service is a function from
  the prompt to the text of its answer (\<^verbatim>\<open>result["text"]\<close>) or the exception that the
  call, the decoding of the answer or the lookup of the text raises. The result is the
  list of requests sent and the pairs yielded.
\<close>

definition batch_sentiment ::
    "(string \<Rightarrow> exn + string) \<Rightarrow> row list \<Rightarrow> string list \<times> (exn + (string \<times> string) list)" where
  "batch_sentiment bedrock batch =
     (if batch = [] then ([], Inr [])
      else
        (let feedbacks = map Feedback batch;
             prompt = build_prompt feedbacks
         in case bedrock prompt of
              Inl e \<Rightarrow> ([prompt], Inl e)
            | Inr txt \<Rightarrow>
                (let text_output = split_lines (strip txt)
                 in ([prompt],
                     Inr (map (\<lambda>(row, sentiment_line). (CustomerID row, sentiment_of sentiment_line))
                            (zip batch text_output))))))"

text \<open>\<^verbatim>\<open>rdd.mapPartitions(batch_sentiment)\<close>: the pairs of every partition, in order; the
  \<open>i\<close>-th partition is answered by \<open>bedrock i\<close>, and an exception in a partition fails
  the whole job.\<close>

fun map_partitions ::
    "(nat \<Rightarrow> string \<Rightarrow> exn + string) \<Rightarrow> nat \<Rightarrow> row list list \<Rightarrow> exn + (string \<times> string) list" where
  "map_partitions bedrock i [] = Inr []"
| "map_partitions bedrock i (batch # rest) =
     then_do (snd (batch_sentiment (bedrock i) batch)) (\<lambda>pairs.
     then_do (map_partitions bedrock (Suc i) rest) (\<lambda>more. Inr (pairs @ more)))"

text \<open>\<^verbatim>\<open>customer360_df.join(sentiment_df, "CustomerID", "left")\<close>: a row with no pair
  for its \<^verbatim>\<open>CustomerID\<close> is kept with a null sentiment.\<close>

definition with_sentiment :: "row \<Rightarrow> string option \<Rightarrow> profile" where
  "with_sentiment r s = \<lparr>CustomerID = CustomerID r, Feedback = Feedback r, Sentiment = s\<rparr>"

definition left_join :: "row list \<Rightarrow> (string \<times> string) list \<Rightarrow> profile list" where
  "left_join rows sentiment_df =
     concat (map (\<lambda>r.
       (let matches = filter (\<lambda>p. fst p = CustomerID r) sentiment_df in
        if matches = [] then [with_sentiment r None]
        else map (\<lambda>p. with_sentiment r (Some (snd p))) matches)) rows)"

subsection \<open>The run\<close>

text \<open>
  The tracking table maps a \<^verbatim>\<open>job_id\<close> to its item; the sink is the table
  \<^verbatim>\<open>customer360_golden\<close> (\<open>None\<close> when it does not exist).
\<close>

record run_record =
  start_time :: string
  status :: string
  end_time :: "string option"
  record_count :: "nat option"
  run_dq_score :: rat
  run_error_count :: int

record gstate =
  tracker :: "string \<Rightarrow> run_record option"
  sink :: "profile list option"

text \<open>
  What the collaborators do during one run. \<open>frames\<close> is the outcome of lines 63 to 109:
  the exception raised by the loads, the deduplication, the joins or the counts, or else
  the value of \<^verbatim>\<open>valid_records\<close> with the partitions of \<^verbatim>\<open>customer360_df\<close>.
  Each call to the tracking table, and the JDBC write, either returns (\<open>None\<close>) or raises.
  \<open>jdbc_leftover\<close> is what the table holds after a \<^verbatim>\<open>save()\<close> that failed.
\<close>

record genv =
  job_name :: string
  dq_arg :: rat
  error_arg :: int
  now_id :: string
  now_start :: string
  now_end :: string
  put_item_raises :: "exn option"
  frames :: "exn + (nat \<times> row list list)"
  bedrock_svc :: "nat \<Rightarrow> string \<Rightarrow> exn + string"
  jdbc_raises :: "exn option"
  jdbc_leftover :: "profile list option"
  update_item_raises :: "exn option"
  commit_raises :: "exn option"

definition job_id :: "genv \<Rightarrow> string" where
  "job_id env = job_name env @ ''_'' @ now_id env"

text \<open>Lines 51 to 60.\<close>

definition put_item :: "genv \<Rightarrow> gstate \<Rightarrow> gstate" where
  "put_item env st =
     st\<lparr>tracker := (tracker st)(job_id env \<mapsto>
           \<lparr>start_time = now_start env, status = ''RUNNING'', end_time = None,
            record_count = None, run_dq_score = dq_arg env, run_error_count = error_arg env\<rparr>)\<rparr>"

text \<open>Lines 176 to 194: the update sets five attributes of the item with the run's key
  (and creates the item when the table has none).\<close>

definition update_item :: "genv \<Rightarrow> nat \<Rightarrow> gstate \<Rightarrow> gstate" where
  "update_item env valid_records st =
     st\<lparr>tracker := (tracker st)(job_id env \<mapsto>
           \<lparr>start_time = (case tracker st (job_id env) of None \<Rightarrow> [] | Some r \<Rightarrow> start_time r),
            status = ''SUCCESS'', end_time = Some (now_end env),
            record_count = Some valid_records,
            run_dq_score = dq_arg env, run_error_count = error_arg env\<rparr>)\<rparr>"

text \<open>
  The rows that \<^verbatim>\<open>save()\<close> writes. DataFrame transformations are lazy: the partition
  function and the join with its pairs run when \<^verbatim>\<open>save()\<close> executes, so an exception
  of the classification service is raised inside the write.
\<close>

definition final_rows :: "genv \<Rightarrow> row list list \<Rightarrow> exn + profile list" where
  "final_rows env parts =
     then_do (map_partitions (bedrock_svc env) 0 parts) (\<lambda>sentiment_df.
       Inr (left_join (concat parts) sentiment_df))"

text \<open>Lines 166 to 173, in overwrite mode.\<close>

definition save :: "genv \<Rightarrow> row list list \<Rightarrow> gstate \<Rightarrow> gstate \<times> (exn + unit)" where
  "save env parts st =
     (case final_rows env parts of
        Inl e \<Rightarrow> (st\<lparr>sink := jdbc_leftover env\<rparr>, Inl e)
      | Inr rows \<Rightarrow>
          (case jdbc_raises env of
             Some e \<Rightarrow> (st\<lparr>sink := jdbc_leftover env\<rparr>, Inl e)
           | None \<Rightarrow> (st\<lparr>sink := Some rows\<rparr>, Inr ())))"

text \<open>The script from the first write to the tracking table to \<^verbatim>\<open>job.commit()\<close>. It has
  no exception handler: the first exception ends the run.\<close>

definition glue_job :: "genv \<Rightarrow> gstate \<Rightarrow> gstate \<times> (exn + unit)" where
  "glue_job env st =
     (case put_item_raises env of
        Some e \<Rightarrow> (st, Inl e)
      | None \<Rightarrow>
          (let st1 = put_item env st in
           case frames env of
             Inl e \<Rightarrow> (st1, Inl e)
           | Inr (valid_records, parts) \<Rightarrow>
               (case save env parts st1 of
                  (st2, Inl e) \<Rightarrow> (st2, Inl e)
                | (st2, Inr _) \<Rightarrow>
                    (case update_item_raises env of
                       Some e \<Rightarrow> (st2, Inl e)
                     | None \<Rightarrow>
                         (let st3 = update_item env valid_records st2 in
                          case commit_raises env of
                            Some e \<Rightarrow> (st3, Inl e)
                          | None \<Rightarrow> (st3, Inr ()))))))"

section \<open>The rules of the specification\<close>




text \<open>
  Three notions used to state the properties of the handler: \<open>write_side\<close> writes an
  object only for a non-empty side; \<open>count_of\<close> reads the count that one object adds to
  a total (nothing when reading it raises); \<open>no_nested_customers\<close> holds for a document
  in which no \<^verbatim>\<open>Customer\<close> element lies inside another one (and for every body that
  is not an XML document).
\<close>

definition write_side :: "bool \<Rightarrow> string \<Rightarrow> body \<Rightarrow> store \<Rightarrow> store" where
  "write_side nonempty k b s = (if nonempty then put_object k b s else s)"

definition count_of :: "exn + nat \<Rightarrow> nat" where
  "count_of r = (case r of Inl e \<Rightarrow> 0 | Inr n \<Rightarrow> n)"

definition no_nested_customers :: "body \<Rightarrow> bool" where
  "no_nested_customers content =
     (case content of
        XmlDoc xroot \<Rightarrow>
          list_all (\<lambda>c. findall_desc ''Customer'' c = []) (findall_desc ''Customer'' xroot)
      | _ \<Rightarrow> True)"

section \<open>Example inputs\<close>

definition customer :: "string \<Rightarrow> string \<Rightarrow> xml list \<Rightarrow> xml" where
  "customer cid name others =
     Element ''Customer'' None
       ([Element ''CustomerID'' (Some cid) [], Element ''Name'' (Some name) []] @ others)"

definition city :: "string \<Rightarrow> xml" where
  "city c = Element ''City'' (Some c) []"


definition lib0 :: pylib where
  "lib0 = \<lparr>float_of_str = (\<lambda>s. None), strptime_ok = (\<lambda>s. s = ''2024-01-01'')\<rparr>"

definition purchase :: "json \<Rightarrow> json" where
  "purchase amount =
     JDict [(''CustomerID'', JStr ''7''), (''Amount'', amount),
            (''Product'', JStr ''X''), (''Date'', JStr ''2024-01-01'')]"

definition feedback_row :: "string \<Rightarrow> csv_row" where
  "feedback_row rating =
     [(''CustomerID'', Some ''7''), (''Rating'', Some rating), (''Feedback'', Some ''good'')]"

definition csv_upload :: lstate where
  "csv_upload =
     \<lparr>s3 = [(''raw/feedback.csv'', CsvDoc [feedback_row ''5'', feedback_row ''6''])],
      cw_failures = 0, glue_runs = []\<rparr>"

definition two_rows :: "row list" where
  "two_rows =
     [\<lparr>CustomerID = ''1'', Feedback = ''great''\<rparr>, \<lparr>CustomerID = ''2'', Feedback = ''terrible''\<rparr>]"

definition answer_one :: "string \<Rightarrow> exn + string" where
  "answer_one prompt = Inr ''Positive''"

definition labels :: "string set" where
  "labels = {''Positive'', ''Negative'', ''Neutral'', ''Unknown''}"

text \<open>A run whose only partition holds two rows and whose classification answer has one
  line; the same run with a failure in the joins; an empty tracking table and no sink.\<close>

definition env_truncated :: genv where
  "env_truncated =
     \<lparr>job_name = ''Customer-360'', dq_arg = 90, error_arg = 2,
      now_id = ''20240101120000'', now_start = ''2024-01-01T12:00:00'',
      now_end = ''2024-01-01T12:05:00'', put_item_raises = None,
      frames = Inr (5, [two_rows]), bedrock_svc = (\<lambda>i. answer_one),
      jdbc_raises = None, jdbc_leftover = None, update_item_raises = None,
      commit_raises = None\<rparr>"

definition env_join_fails :: genv where
  "env_join_fails = env_truncated\<lparr>frames := Inl ServiceError\<rparr>"

definition gstate0 :: gstate where
  "gstate0 = \<lparr>tracker = Map.empty, sink = None\<rparr>"

definition truncated_rows :: "profile list" where
  "truncated_rows =
     [\<lparr>CustomerID = ''1'', Feedback = ''great'', Sentiment = Some ''Positive''\<rparr>,
      \<lparr>CustomerID = ''2'', Feedback = ''terrible'', Sentiment = None\<rparr>]"

text \<open>
  Uploads for the handler: a document whose rejected \<^verbatim>\<open>Customer\<close> element holds another
  one, stored at a key without \<^verbatim>\<open>raw/\<close>; a file of one rejected purchase next to an
  earlier validated file; a document whose accepted \<^verbatim>\<open>Customer\<close> element holds another
  accepted one; a file of one accepted and one rejected purchase, with the store its
  processing leaves; and the stores left by two other uploads.
\<close>

definition nested_invalid :: xml where
  "nested_invalid =
     Element ''Customers'' None [Element ''Customer'' None [Element ''Customer'' None []]]"

definition unrouted_upload :: lstate where
  "unrouted_upload = \<lparr>s3 = [(''c.xml'', XmlDoc nested_invalid)], cw_failures = 0, glue_runs = []\<rparr>"

definition rejected_only_upload :: lstate where
  "rejected_only_upload =
     \<lparr>s3 = [(''validated/a.json'', JsonDoc (JList [purchase (JInt 5)])),
            (''raw/b.json'', JsonDoc (JList [purchase (JInt (- 5))]))],
      cw_failures = 0, glue_runs = []\<rparr>"

definition nested_valid :: xml where
  "nested_valid =
     Element ''Customers'' None
       [customer ''1'' ''Ann'' [city ''Oslo'', customer ''2'' ''Bob'' [city ''Rome'']]]"

definition mixed_body :: body where
  "mixed_body = JsonDoc (JList [purchase (JInt 5), purchase (JInt (- 5))])"

definition mixed_upload :: lstate where
  "mixed_upload = \<lparr>s3 = [(''raw/p.json'', mixed_body)], cw_failures = 0, glue_runs = []\<rparr>"

definition mixed_store :: store where
  "mixed_store =
     [(''raw/p.json'', mixed_body),
      (''validated/p.json'', JsonDoc (JList [purchase (JInt 5)])),
      (''error/p.json'', JsonDoc (JList [purchase (JInt (- 5))]))]"

definition nested_store :: store where
  "nested_store =
     [(''validated/c.xml'',
       XmlDoc (Element ''Customers'' None
         [customer ''1'' ''Ann'' [city ''Oslo'', customer ''2'' ''Bob'' [city ''Rome'']],
          customer ''2'' ''Bob'' [city ''Rome'']]))]"

definition inbox_store :: store where
  "inbox_store = [(''inbox/validated/p.json'', JsonDoc (JList [purchase (JInt 5)]))]"

section \<open>Properties of the validators\<close>

lemma strip_Nil [simp]: "strip [] = []"
  by (simp add: strip_def)

lemma isdigit_Nil [simp]: "\<not> isdigit []"
  by (simp add: isdigit_def)


lemma xml_loop_filter:
  "xml_loop custs v i =
     (v @ filter xml_customer_ok custs, i @ filter (\<lambda>c. \<not> xml_customer_ok c) custs)"
  by (induction custs arbitrary: v i) auto

lemma json_loop_filter:
  "json_loop lib recs v i =
     (v @ filter (json_record_ok lib) recs, i @ filter (\<lambda>r. \<not> json_record_ok lib r) recs)"
  by (induction recs arbitrary: v i) auto

lemma csv_loop_filter:
  "csv_loop rows v i = (v @ filter csv_row_ok rows, i @ filter (\<lambda>r. \<not> csv_row_ok r) rows)"
  by (induction rows arbitrary: v i) auto



text \<open>
  Claim C1. The claim says that \<^verbatim>\<open>process_csv_records\<close> returns the pair of accepted
  and rejected rows. The loop does build that pair (a row with \<^verbatim>\<open>Rating=5\<close> is put in
  the accepted list, one with \<^verbatim>\<open>Rating=6\<close> in the rejected list), but the function
  ends without returning it: on this file its value is \<^verbatim>\<open>None\<close>, and the handler,
  which unpacks the value, ends with a \<^verbatim>\<open>TypeError\<close> and writes no partition.
\<close>

theorem csv_validator_returns_none:
  "csv_loop [feedback_row ''5'', feedback_row ''6''] [] []
     = ([feedback_row ''5''], [feedback_row ''6''])
   \<and> process_csv_records (CsvDoc [feedback_row ''5'', feedback_row ''6'']) = None
   \<and> lambda_handler lib0 [(''bucket'', ''raw/feedback.csv'')] csv_upload
       = (csv_upload, Inl TypeError)"
proof (intro conjI)
  show "csv_loop [feedback_row ''5'', feedback_row ''6''] [] []
          = ([feedback_row ''5''], [feedback_row ''6''])"
    by code_simp
  show "process_csv_records (CsvDoc [feedback_row ''5'', feedback_row ''6'']) = None"
    by (simp add: process_csv_records_def Let_def split: prod.splits)
  show "lambda_handler lib0 [(''bucket'', ''raw/feedback.csv'')] csv_upload
          = (csv_upload, Inl TypeError)"
    by code_simp
qed

text \<open>
  Claim C8. A purchase record is accepted only if its \<^verbatim>\<open>Amount\<close> is a positive number.
  The rule rejects an amount \<open>a\<close> when \<^verbatim>\<open>float(a) <= 0\<close>, which is false for NaN: the
  record of the scenario with the amount NaN is accepted.
\<close>

theorem purchase_nan_accepted:
  "process_json_records lib0 (JsonDoc (JList [purchase (JFloat NaN), purchase (JInt (- 5))]))
     = Inr ([purchase (JFloat NaN)], [purchase (JInt (- 5))])"
  by code_simp

text \<open>
  The acceptance rules of the two other validators in closed form: a purchase record is
  accepted iff it is an object whose \<^verbatim>\<open>CustomerID\<close> is numeric, whose \<^verbatim>\<open>Amount\<close>
  converts to a float that is not \<open>\<le> 0\<close>, whose \<^verbatim>\<open>Product\<close> is a non-blank string
  and whose \<^verbatim>\<open>Date\<close> is a string that \<^verbatim>\<open>strptime\<close> accepts; every other value,
  and every record on which a rule raises, is rejected. A feedback row is accepted by
  the loop iff its \<^verbatim>\<open>CustomerID\<close> is numeric, its \<^verbatim>\<open>Rating\<close> converts to an integer
  from 1 to 5 and its \<^verbatim>\<open>Feedback\<close> is not blank.
\<close>

lemma or_else_False_iff:
  "or_else a b = Inr False \<longleftrightarrow> a = Inr False \<and> b = Inr False"
  by (auto simp: or_else_def split: sum.splits)

lemma json_record_ok_False_iff:
  "json_record_ok lib rec \<longleftrightarrow> json_rule_violated lib rec = Inr False"
  by (auto simp: json_record_ok_def split: sum.splits)

lemma not_in_False: "py_not (py_in k rec) = Inr False \<longleftrightarrow> py_in k rec = Inr True"
  by (auto simp: py_not_def then_do_def split: sum.splits)

lemma getitem_check:
  "then_do (py_getitem rec k) f = Inr False \<longleftrightarrow> (\<exists>v. py_getitem rec k = Inr v \<and> f v = Inr False)"
  by (auto simp: then_do_def split: sum.splits)

lemma py_getitem_Inr:
  "py_getitem rec k = Inr v \<longleftrightarrow> (\<exists>kvs. rec = JDict kvs \<and> map_of kvs k = Some v)"
  by (cases rec) (auto split: option.splits)

lemma py_strip_check:
  "then_do (py_strip v) (\<lambda>s. Inr (s = [])) = Inr False \<longleftrightarrow> (\<exists>p. v = JStr p \<and> strip p \<noteq> [])"
  by (cases v) (auto simp: then_do_def)

lemma py_float_check:
  "then_do (py_float lib v) (\<lambda>f. Inr (float_le_zero f)) = Inr False
     \<longleftrightarrow> (\<exists>f. py_float lib v = Inr f \<and> \<not> float_le_zero f)"
  by (auto simp: then_do_def split: sum.splits)

lemma is_valid_date_iff: "is_valid_date lib v \<longleftrightarrow> (\<exists>d. v = JStr d \<and> strptime_ok lib d)"
  by (cases v) auto

lemma json_record_ok_iff:
  "json_record_ok lib rec \<longleftrightarrow>
     (\<exists>kvs cid amount f product date.
        rec = JDict kvs
        \<and> map_of kvs ''CustomerID'' = Some cid \<and> str_isdigit cid
        \<and> map_of kvs ''Amount'' = Some amount \<and> py_float lib amount = Inr f \<and> \<not> float_le_zero f
        \<and> map_of kvs ''Product'' = Some (JStr product) \<and> strip product \<noteq> []
        \<and> map_of kvs ''Date'' = Some (JStr date) \<and> strptime_ok lib date)"
  (is "?l \<longleftrightarrow> ?r")
proof
  assume ?l
  then have v: "json_rule_violated lib rec = Inr False"
    by (simp add: json_record_ok_False_iff)
  then obtain cid amount prod dt where
    c: "py_getitem rec ''CustomerID'' = Inr cid" "str_isdigit cid"
    and a: "py_getitem rec ''Amount'' = Inr amount"
       "then_do (py_float lib amount) (\<lambda>f. Inr (float_le_zero f)) = Inr False"
    and p: "py_getitem rec ''Product'' = Inr prod"
       "then_do (py_strip prod) (\<lambda>s. Inr (s = [])) = Inr False"
    and d: "py_getitem rec ''Date'' = Inr dt" "is_valid_date lib dt"
    unfolding json_rule_violated_def or_else_False_iff getitem_check by auto
  from c(1) obtain kvs where r: "rec = JDict kvs" and mc: "map_of kvs ''CustomerID'' = Some cid"
    by (auto simp: py_getitem_Inr)
  from a(1) r have ma: "map_of kvs ''Amount'' = Some amount"
    by (auto split: option.splits)
  from p(1) r have mp: "map_of kvs ''Product'' = Some prod"
    by (auto split: option.splits)
  from d(1) r have md: "map_of kvs ''Date'' = Some dt"
    by (auto split: option.splits)
  from a(2) obtain f where f: "py_float lib amount = Inr f" "\<not> float_le_zero f"
    by (auto simp: py_float_check)
  from p(2) obtain product where pr: "prod = JStr product" "strip product \<noteq> []"
    by (auto simp: py_strip_check)
  from d(2) obtain date where dd: "dt = JStr date" "strptime_ok lib date"
    by (auto simp: is_valid_date_iff)
  from r mc c(2) ma f mp pr md dd show ?r
    by blast
next
  assume ?r
  then show ?l
    by (auto simp: json_record_ok_def json_rule_violated_def or_else_def then_do_def py_not_def)
qed


lemma csv_row_ok_iff:
  "csv_row_ok row \<longleftrightarrow>
     (\<exists>cid rating i feedback.
        map_of row ''CustomerID'' = Some (Some cid) \<and> isdigit cid
        \<and> map_of row ''Rating'' = Some rating \<and> py_int rating = Inr i \<and> 1 \<le> i \<and> i \<le> 5
        \<and> map_of row ''Feedback'' = Some (Some feedback) \<and> strip feedback \<noteq> [])"
  by (auto simp: csv_row_ok_def csv_rule_violated_def or_else_def then_do_def csv_getitem_def
      split: sum.splits option.splits if_splits)

section \<open>Properties of the quality score\<close>



section \<open>Properties of the sentiment enrichment\<close>

lemma foldl_append_concat:
  "foldl (\<lambda>acc x. acc @ f x) p xs = p @ concat (map f xs)"
  by (induction xs arbitrary: p) simp_all

lemma build_prompt_concat:
  "build_prompt (map Feedback batch)
     = prompt_header @ concat (map (\<lambda>r. ''- '' @ Feedback r @ [CHR 0x0A]) batch)"
  unfolding build_prompt_def foldl_append_concat by (simp add: comp_def)

lemma split_lines_not_Nil [simp]: "split_lines s \<noteq> []"
  by (induction s) auto

lemma length_split_lines:
  "length (split_lines s) = Suc (length (filter (\<lambda>c. c = CHR 0x0A) s))"
  by (induction s) (auto simp: Suc_pred')

lemma count_item_lines:
  "\<forall>r\<in>set batch. CHR 0x0A \<notin> set (Feedback r) \<Longrightarrow>
     length (filter (\<lambda>c. c = CHR 0x0A) (concat (map (\<lambda>r. ''- '' @ Feedback r @ [CHR 0x0A]) batch)))
       = length batch"
proof (induction batch)
  case Nil
  then show ?case by simp
next
  case (Cons r batch)
  have "filter (\<lambda>c. c = CHR 0x0A) (Feedback r) = []"
    using Cons.prems by (auto simp: filter_empty_conv)
  with Cons show ?case by simp
qed

lemma prompt_lines:
  assumes "\<forall>r\<in>set batch. CHR 0x0A \<notin> set (Feedback r)"
  shows "length (split_lines (build_prompt (map Feedback batch))) = length batch + 3"
proof -
  have "length (filter (\<lambda>c. c = CHR 0x0A) prompt_header) = 2"
    by (simp add: prompt_header_def)
  then show ?thesis
    using count_item_lines [OF assms]
    by (simp add: length_split_lines build_prompt_concat)
qed

lemma sentiment_of_cases:
  "sentiment_of l =
     (if contains ''positive'' (lower l) then ''Positive''
      else if contains ''negative'' (lower l) then ''Negative''
      else if contains ''neutral'' (lower l) then ''Neutral''
      else ''Unknown'')"
  by (simp add: sentiment_of_def Let_def)

lemma sentiment_of_label: "sentiment_of l \<in> labels"
  by (simp add: sentiment_of_cases labels_def)

text \<open>
  Claim C5. On an empty partition \<^verbatim>\<open>batch_sentiment\<close> sends no request and yields
  nothing. On a non-empty partition it sends exactly one request, whose prompt is the
  header followed by one entry \<^verbatim>\<open>- feedback\<close> per row, each ended by a line feed, in
  row order (so one line per row when no feedback text holds a line feed: with the two
  header lines and the empty piece after the last line feed, the prompt splits into
  \<open>length batch + 3\<close> pieces). When the service answers, the pairs yielded are as many as
  the shorter of the partition and the lines of the stripped answer, and pair \<open>i\<close> joins the
  \<^verbatim>\<open>CustomerID\<close> of row \<open>i\<close> to the label of line \<open>i\<close>. The label of a line is found
  in its lower-cased text: \<^verbatim>\<open>Positive\<close> when it contains \<^verbatim>\<open>positive\<close>, otherwise
  \<^verbatim>\<open>Negative\<close> when it contains \<^verbatim>\<open>negative\<close>, otherwise \<^verbatim>\<open>Neutral\<close> when it
  contains \<^verbatim>\<open>neutral\<close>, otherwise \<^verbatim>\<open>Unknown\<close>.
\<close>

theorem sentiment_adapter_protocol:
  "batch_sentiment bedrock [] = ([], Inr [])
   \<and> (batch \<noteq> [] \<longrightarrow>
        fst (batch_sentiment bedrock batch)
          = [prompt_header @ concat (map (\<lambda>r. ''- '' @ Feedback r @ [CHR 0x0A]) batch)])
   \<and> (batch \<noteq> [] \<longrightarrow> (\<forall>r\<in>set batch. CHR 0x0A \<notin> set (Feedback r)) \<longrightarrow>
        length (split_lines (build_prompt (map Feedback batch))) = length batch + 3)
   \<and> (batch \<noteq> [] \<longrightarrow> bedrock (build_prompt (map Feedback batch)) = Inr txt \<longrightarrow>
        (\<exists>pairs. snd (batch_sentiment bedrock batch) = Inr pairs
           \<and> length pairs = min (length batch) (length (split_lines (strip txt)))
           \<and> (\<forall>i<length pairs.
                 pairs ! i = (CustomerID (batch ! i), sentiment_of (split_lines (strip txt) ! i)))))
   \<and> sentiment_of l =
       (if contains ''positive'' (lower l) then ''Positive''
        else if contains ''negative'' (lower l) then ''Negative''
        else if contains ''neutral'' (lower l) then ''Neutral''
        else ''Unknown'')"
proof (intro conjI impI)
  show "batch_sentiment bedrock [] = ([], Inr [])"
    by (simp add: batch_sentiment_def)
next
  assume "batch \<noteq> []"
  then show "fst (batch_sentiment bedrock batch)
          = [prompt_header @ concat (map (\<lambda>r. ''- '' @ Feedback r @ [CHR 0x0A]) batch)]"
    by (simp add: batch_sentiment_def Let_def build_prompt_concat split: sum.splits)
next
  assume "\<forall>r\<in>set batch. CHR 0x0A \<notin> set (Feedback r)"
  then show "length (split_lines (build_prompt (map Feedback batch))) = length batch + 3"
    by (rule prompt_lines)
next
  assume ne: "batch \<noteq> []" and ok: "bedrock (build_prompt (map Feedback batch)) = Inr txt"
  let ?lines = "split_lines (strip txt)"
  let ?pairs = "map (\<lambda>(row, sentiment_line). (CustomerID row, sentiment_of sentiment_line))
                  (zip batch ?lines)"
  have "snd (batch_sentiment bedrock batch) = Inr ?pairs"
    using ne ok by (simp add: batch_sentiment_def Let_def)
  moreover have "length ?pairs = min (length batch) (length ?lines)"
    by simp
  moreover have "\<forall>i<length ?pairs. ?pairs ! i = (CustomerID (batch ! i), sentiment_of (?lines ! i))"
    by simp
  ultimately show "\<exists>pairs. snd (batch_sentiment bedrock batch) = Inr pairs
           \<and> length pairs = min (length batch) (length ?lines)
           \<and> (\<forall>i<length pairs. pairs ! i = (CustomerID (batch ! i), sentiment_of (?lines ! i)))"
    by blast
next
  show "sentiment_of l =
       (if contains ''positive'' (lower l) then ''Positive''
        else if contains ''negative'' (lower l) then ''Negative''
        else if contains ''neutral'' (lower l) then ''Neutral''
        else ''Unknown'')"
    by (rule sentiment_of_cases)
qed

text \<open>Two rows and an answer of one line: one request of two entries, and only the first
  row receives a pair.\<close>

theorem sentiment_adapter_protocol_witness:
  "fst (batch_sentiment answer_one two_rows)
     = [prompt_header @ ''- great'' @ [CHR 0x0A] @ ''- terrible'' @ [CHR 0x0A]]
   \<and> length (split_lines (build_prompt (map Feedback two_rows))) = 5
   \<and> snd (batch_sentiment answer_one two_rows) = Inr [(''1'', ''Positive'')]
   \<and> sentiment_of ''It is NEGATIVE'' = ''Negative''"
proof -
  note inst = sentiment_adapter_protocol [of answer_one two_rows "''Positive''" "''It is NEGATIVE''"]
  have ne: "two_rows \<noteq> []"
    by (simp add: two_rows_def)
  have nl: "\<forall>r\<in>set two_rows. CHR 0x0A \<notin> set (Feedback r)"
    by (simp add: two_rows_def)
  have ans: "answer_one (build_prompt (map Feedback two_rows)) = Inr ''Positive''"
    by (simp add: answer_one_def)
  have lines: "split_lines (strip ''Positive'') = [''Positive'']"
    by code_simp
  have lab: "sentiment_of ''Positive'' = ''Positive''"
    by code_simp
  have low: "contains ''positive'' (lower ''It is NEGATIVE'') = False"
            "contains ''negative'' (lower ''It is NEGATIVE'') = True"
    by code_simp+
  from inst ne have 1: "fst (batch_sentiment answer_one two_rows)
     = [prompt_header @ ''- great'' @ [CHR 0x0A] @ ''- terrible'' @ [CHR 0x0A]]"
    by (simp add: two_rows_def)
  from inst ne nl have 2: "length (split_lines (build_prompt (map Feedback two_rows))) = 5"
    by (simp add: two_rows_def)
  from inst ne ans obtain pairs where
    p: "snd (batch_sentiment answer_one two_rows) = Inr pairs"
    and len: "length pairs = min (length two_rows) (length (split_lines (strip ''Positive'')))"
    and nth: "\<forall>i<length pairs. pairs ! i =
                (CustomerID (two_rows ! i), sentiment_of (split_lines (strip ''Positive'') ! i))"
    by blast
  from len have len1: "length pairs = 1"
    by (simp add: lines two_rows_def)
  with nth have "pairs ! 0 = (''1'', ''Positive'')"
    by (simp add: lines lab two_rows_def)
  with len1 have "pairs = [(''1'', ''Positive'')]"
    by (cases pairs) auto
  with p have 3: "snd (batch_sentiment answer_one two_rows) = Inr [(''1'', ''Positive'')]"
    by simp
  from inst have 4: "sentiment_of ''It is NEGATIVE'' = ''Negative''"
    by (simp add: low)
  from 1 2 3 4 show ?thesis by blast
qed

lemma batch_sentiment_labels:
  assumes "snd (batch_sentiment bedrock batch) = Inr pairs"
  shows "snd ` set pairs \<subseteq> labels"
proof (cases "batch = []")
  case True
  with assms show ?thesis by (simp add: batch_sentiment_def)
next
  case False
  with assms show ?thesis
    by (auto simp: batch_sentiment_def Let_def sentiment_of_label split: sum.splits
        dest!: set_zip_rightD)
qed

lemma map_partitions_labels:
  "map_partitions bedrock i parts = Inr pairs \<Longrightarrow> snd ` set pairs \<subseteq> labels"
proof (induction parts arbitrary: i pairs)
  case Nil
  then show ?case by simp
next
  case (Cons batch parts)
  from Cons.prems obtain ps rest where
    ps: "snd (batch_sentiment (bedrock i) batch) = Inr ps"
    and rest: "map_partitions bedrock (Suc i) parts = Inr rest"
    and pairs: "pairs = ps @ rest"
    by (auto simp: then_do_def split: sum.splits)
  from batch_sentiment_labels [OF ps] Cons.IH [OF rest] pairs show ?case
    by auto
qed

lemma left_join_sentiment:
  assumes "p \<in> set (left_join rows pairs)"
  shows "(Sentiment p = None \<and> CustomerID p \<notin> fst ` set pairs)
       \<or> (\<exists>s. Sentiment p = Some s \<and> (CustomerID p, s) \<in> set pairs)"
proof -
  from assms obtain r where r: "r \<in> set rows"
    and p: "p \<in> set (let matches = filter (\<lambda>q. fst q = CustomerID r) pairs in
                if matches = [] then [with_sentiment r None]
                else map (\<lambda>q. with_sentiment r (Some (snd q))) matches)"
    by (auto simp: left_join_def)
  show ?thesis
  proof (cases "filter (\<lambda>q. fst q = CustomerID r) pairs = []")
    case True
    with p have "p = with_sentiment r None" by simp
    moreover from True have "CustomerID r \<notin> fst ` set pairs"
      by (auto simp: filter_empty_conv)
    ultimately show ?thesis by (simp add: with_sentiment_def)
  next
    case False
    with p obtain q where q: "q \<in> set pairs" "fst q = CustomerID r"
      and pq: "p = with_sentiment r (Some (snd q))"
      by auto
    from q have "(CustomerID r, snd q) \<in> set pairs"
      by (metis prod.collapse)
    with pq show ?thesis by (simp add: with_sentiment_def)
  qed
qed

lemma final_rows_truncated: "final_rows env_truncated [two_rows] = Inr truncated_rows"
  by code_simp

text \<open>
  Claim C4, as stated, fails: in a run where the classification answer has one line for a
  partition of two rows, the row of the second customer is written to the sink with a
  null \<^verbatim>\<open>Sentiment\<close>.
\<close>

theorem truncated_answer_leaves_null:
  "glue_job env_truncated gstate0 =
     (update_item env_truncated 5 (put_item env_truncated gstate0\<lparr>sink := Some truncated_rows\<rparr>),
      Inr ())
   \<and> map Sentiment truncated_rows = [Some ''Positive'', None]"
proof -
  have sv: "save env_truncated [two_rows] st = (st\<lparr>sink := Some truncated_rows\<rparr>, Inr ())" for st
    by (simp add: save_def final_rows_truncated) (simp add: env_truncated_def)
  have fields: "put_item_raises env_truncated = None" "frames env_truncated = Inr (5, [two_rows])"
    "update_item_raises env_truncated = None" "commit_raises env_truncated = None"
    by (simp_all add: env_truncated_def)
  have "glue_job env_truncated gstate0 =
     (update_item env_truncated 5 (put_item env_truncated gstate0\<lparr>sink := Some truncated_rows\<rparr>),
      Inr ())"
    by (simp add: glue_job_def sv fields)
  moreover have "map Sentiment truncated_rows = [Some ''Positive'', None]"
    by (simp add: truncated_rows_def)
  ultimately show ?thesis by simp
qed

text \<open>
  Claim C4, amended. Every row that a successful \<^verbatim>\<open>save()\<close> writes has a
  \<^verbatim>\<open>Sentiment\<close> that is null or one of \<^verbatim>\<open>Positive\<close>, \<^verbatim>\<open>Negative\<close>,
  \<^verbatim>\<open>Neutral\<close>, \<^verbatim>\<open>Unknown\<close>: it is null exactly when the enrichment yielded no pair
  for the row's \<^verbatim>\<open>CustomerID\<close>, and otherwise it is the label of one of the pairs
  yielded for that \<^verbatim>\<open>CustomerID\<close>.
\<close>

theorem sentiment_label_or_null:
  assumes "save env parts st = (st', Inr ())"
  shows "\<exists>rows pairs. sink st' = Some rows
           \<and> map_partitions (bedrock_svc env) 0 parts = Inr pairs
           \<and> (\<forall>p\<in>set rows.
                 (Sentiment p = None \<and> CustomerID p \<notin> fst ` set pairs)
               \<or> (\<exists>s\<in>labels. Sentiment p = Some s \<and> (CustomerID p, s) \<in> set pairs))"
proof -
  from assms obtain rows where rows: "final_rows env parts = Inr rows" and st': "sink st' = Some rows"
    by (auto simp: save_def split: sum.splits option.splits)
  from rows obtain pairs where pairs: "map_partitions (bedrock_svc env) 0 parts = Inr pairs"
    and join: "rows = left_join (concat parts) pairs"
    by (auto simp: final_rows_def then_do_def split: sum.splits)
  have "\<forall>p\<in>set rows.
          (Sentiment p = None \<and> CustomerID p \<notin> fst ` set pairs)
        \<or> (\<exists>s\<in>labels. Sentiment p = Some s \<and> (CustomerID p, s) \<in> set pairs)"
  proof
    fix p assume "p \<in> set rows"
    with join have "p \<in> set (left_join (concat parts) pairs)" by simp
    from left_join_sentiment [OF this] map_partitions_labels [OF pairs]
    show "(Sentiment p = None \<and> CustomerID p \<notin> fst ` set pairs)
        \<or> (\<exists>s\<in>labels. Sentiment p = Some s \<and> (CustomerID p, s) \<in> set pairs)"
      by force
  qed
  with st' pairs show ?thesis by blast
qed

theorem sentiment_label_or_null_witness:
  "save env_truncated [two_rows] gstate0 = (gstate0\<lparr>sink := Some truncated_rows\<rparr>, Inr ())
   \<and> (\<exists>rows pairs. sink (gstate0\<lparr>sink := Some truncated_rows\<rparr>) = Some rows
           \<and> map_partitions (bedrock_svc env_truncated) 0 [two_rows] = Inr pairs
           \<and> (\<forall>p\<in>set rows.
                 (Sentiment p = None \<and> CustomerID p \<notin> fst ` set pairs)
               \<or> (\<exists>s\<in>labels. Sentiment p = Some s \<and> (CustomerID p, s) \<in> set pairs)))"
proof -
  have ev: "save env_truncated [two_rows] gstate0 = (gstate0\<lparr>sink := Some truncated_rows\<rparr>, Inr ())"
    by (simp add: save_def final_rows_truncated) (simp add: env_truncated_def)
  from sentiment_label_or_null [OF ev] ev show ?thesis
    by simp
qed

section \<open>Properties of the run tracking\<close>

text \<open>
  Claim C3, as stated, fails: in a run whose joins raise, the run ends with that
  exception and the record of the run keeps the status \<^verbatim>\<open>RUNNING\<close>; it is not
  updated to \<^verbatim>\<open>FAILED\<close>.
\<close>

theorem join_failure_leaves_running:
  "glue_job env_join_fails gstate0 = (put_item env_join_fails gstate0, Inl ServiceError)
   \<and> map_option status (tracker (put_item env_join_fails gstate0) (job_id env_join_fails))
       = Some ''RUNNING''"
  by (simp add: glue_job_def env_join_fails_def env_truncated_def put_item_def)

text \<open>
  Claim C3, amended. When a step of the run raises, the run ends with that exception and
  the record of the run is never set to \<^verbatim>\<open>FAILED\<close>: if the first write to the tracking
  table raised, nothing has changed; otherwise the record exists with status
  \<^verbatim>\<open>RUNNING\<close>, or \<^verbatim>\<open>SUCCESS\<close> when only \<^verbatim>\<open>job.commit()\<close> raised. When the loads,
  joins, aggregates or counts raise, the sink is not written. When the dataset was
  computed and written and a later step raises, the sink holds the written dataset.
\<close>

theorem failed_run_never_marked_failed:
  assumes "glue_job env st = (st', Inl e)"
  shows "(put_item_raises env \<noteq> None \<longrightarrow> st' = st)
       \<and> (put_item_raises env = None \<longrightarrow>
            (\<exists>r. tracker st' (job_id env) = Some r
               \<and> (status r = ''RUNNING'' \<or> status r = ''SUCCESS'')
               \<and> (status r = ''SUCCESS'' \<longrightarrow>
                     update_item_raises env = None \<and> commit_raises env \<noteq> None)))
       \<and> ((\<exists>x. frames env = Inl x) \<longrightarrow> sink st' = sink st)
       \<and> (\<forall>n parts rows.
             put_item_raises env = None \<and> frames env = Inr (n, parts)
             \<and> final_rows env parts = Inr rows \<and> jdbc_raises env = None
             \<longrightarrow> sink st' = Some rows)"
  using assms
  by (auto simp: glue_job_def save_def put_item_def update_item_def Let_def
      split: option.splits sum.splits prod.splits)

theorem failed_run_never_marked_failed_witness:
  "glue_job env_join_fails gstate0 = (put_item env_join_fails gstate0, Inl ServiceError)
   \<and> (\<exists>r. tracker (put_item env_join_fails gstate0) (job_id env_join_fails) = Some r
          \<and> (status r = ''RUNNING'' \<or> status r = ''SUCCESS''))
   \<and> sink (put_item env_join_fails gstate0) = sink gstate0"
proof -
  have ev: "glue_job env_join_fails gstate0 = (put_item env_join_fails gstate0, Inl ServiceError)"
    by (simp add: glue_job_def env_join_fails_def env_truncated_def)
  have p: "put_item_raises env_join_fails = None" and f: "frames env_join_fails = Inl ServiceError"
    by (simp_all add: env_join_fails_def env_truncated_def)
  from failed_run_never_marked_failed [OF ev] p f ev show ?thesis
    by blast
qed

section \<open>Lemmas on keys, the store and the validators\<close>

lemma startswith_iff: "startswith s p \<longleftrightarrow> (\<exists>r. s = p @ r)"
  by (induction s arbitrary: p) (auto split: list.splits)

lemma endswith_iff: "endswith s p \<longleftrightarrow> (\<exists>q. s = q @ p)"
proof -
  have "endswith s p \<longleftrightarrow> (\<exists>r. rev s = rev p @ r)"
    by (simp add: endswith_def startswith_iff)
  also have "\<dots> \<longleftrightarrow> (\<exists>q. s = q @ p)"
  proof
    assume "\<exists>r. rev s = rev p @ r"
    then obtain r where "rev s = rev p @ r" ..
    then have "s = rev r @ p" by (metis rev_append rev_rev_ident)
    then show "\<exists>q. s = q @ p" ..
  next
    assume "\<exists>q. s = q @ p"
    then obtain q where "s = q @ p" ..
    then have "rev s = rev p @ rev q" by simp
    then show "\<exists>r. rev s = rev p @ r" ..
  qed
  finally show ?thesis .
qed

lemma startswith_hd: "startswith s p \<Longrightarrow> p \<noteq> [] \<Longrightarrow> s \<noteq> [] \<and> hd s = hd p"
  by (auto simp: startswith_iff)

lemma replace_Nil [simp]: "replace old new [] = []"
  by (simp add: replace.simps)

lemma replace_neq_self:
  "contains old s \<Longrightarrow> old \<noteq> [] \<Longrightarrow> new \<noteq> [] \<Longrightarrow> hd new \<noteq> hd old \<Longrightarrow> replace old new s \<noteq> s"
proof (induction old new s rule: replace.induct)
  case (1 old new s)
  show ?case
  proof (cases "s = []")
    case True
    with "1.prems" show ?thesis by simp
  next
    case ne: False
    show ?thesis
    proof (cases "startswith s old")
      case True
      with ne "1.prems" have "replace old new s = new @ replace old new (drop (length old) s)"
        by (simp add: replace.simps [of old new s])
      moreover from True "1.prems" have "hd s = hd old"
        by (simp add: startswith_hd)
      ultimately show ?thesis
        using "1.prems" ne by (metis hd_append2)
    next
      case False
      with ne have eq: "replace old new s = hd s # replace old new (tl s)"
        by (simp add: replace.simps [of old new s])
      from ne False "1.prems" have "contains old (tl s)"
        by (cases s) auto
      with "1.IH"(2) ne False "1.prems" have "replace old new (tl s) \<noteq> tl s"
        by simp
      with eq ne show ?thesis
        by (metis list.sel(3))
    qed
  qed
qed

lemma replace_neq_other:
  "contains old s \<Longrightarrow> old \<noteq> [] \<Longrightarrow> n1 \<noteq> [] \<Longrightarrow> n2 \<noteq> [] \<Longrightarrow> hd n1 \<noteq> hd n2
     \<Longrightarrow> replace old n1 s \<noteq> replace old n2 s"
proof (induction old n1 s rule: replace.induct)
  case (1 old n1 s)
  show ?case
  proof (cases "s = []")
    case True
    with "1.prems" show ?thesis by simp
  next
    case ne: False
    show ?thesis
    proof (cases "startswith s old")
      case True
      with ne "1.prems" have "replace old n1 s = n1 @ replace old n1 (drop (length old) s)"
        "replace old n2 s = n2 @ replace old n2 (drop (length old) s)"
        by (simp_all add: replace.simps [of old _ s])
      then show ?thesis
        using "1.prems" by (metis hd_append2)
    next
      case False
      with ne have eq: "replace old n1 s = hd s # replace old n1 (tl s)"
         "replace old n2 s = hd s # replace old n2 (tl s)"
        by (simp_all add: replace.simps [of old _ s])
      from ne False "1.prems" have "contains old (tl s)"
        by (cases s) auto
      with "1.IH"(2) ne False "1.prems" have "replace old n1 (tl s) \<noteq> replace old n2 (tl s)"
        by simp
      with eq show ?thesis by simp
    qed
  qed
qed

lemma replace_id:
  "old \<noteq> [] \<Longrightarrow> last old \<notin> set s \<Longrightarrow> replace old new s = s"
proof (induction old new s rule: replace.induct)
  case (1 old new s)
  show ?case
  proof (cases "s = []")
    case True
    then show ?thesis by (simp add: replace.simps [of old new s])
  next
    case ne: False
    have "\<not> startswith s old"
    proof
      assume "startswith s old"
      then obtain r where "s = old @ r" by (auto simp: startswith_iff)
      with "1.prems" show False by simp
    qed
    with ne have eq: "replace old new s = hd s # replace old new (tl s)"
      by (simp add: replace.simps [of old new s])
    from "1.prems" ne have "last old \<notin> set (tl s)"
      by (cases s) auto
    with "1.IH"(2) ne \<open>\<not> startswith s old\<close> "1.prems" have "replace old new (tl s) = tl s"
      by simp
    with eq ne show ?thesis by simp
  qed
qed

lemma replace_keeps_suffix:
  "old \<noteq> [] \<Longrightarrow> last old \<notin> set suf \<Longrightarrow> endswith s suf \<Longrightarrow> endswith (replace old new s) suf"
proof (induction old new s rule: replace.induct)
  case (1 old new s)
  from "1.prems" obtain q where q: "s = q @ suf"
    by (auto simp: endswith_iff)
  show ?case
  proof (cases "s = []")
    case True
    with q show ?thesis by (simp add: replace.simps [of old new s] endswith_iff)
  next
    case ne: False
    show ?thesis
    proof (cases "startswith s old")
      case True
      then obtain r where r: "s = old @ r" by (auto simp: startswith_iff)
      with q have "old @ r = q @ suf" by simp
      then consider t where "old = q @ t" "suf = t @ r" | t where "q = old @ t" "r = t @ suf"
        by (auto simp: append_eq_append_conv2)
      then have "endswith r suf"
      proof cases
        case 1
        show ?thesis
        proof (cases "t = []")
          case True
          with 1 show ?thesis by (simp add: endswith_iff)
        next
          case False
          with 1 have "last old \<in> set suf" by simp
          with "1.prems" show ?thesis by simp
        qed
      next
        case 2
        then show ?thesis by (auto simp: endswith_iff)
      qed
      moreover from r have "drop (length old) s = r" by simp
      ultimately have "endswith (replace old new (drop (length old) s)) suf"
        using "1.IH"(1) ne True "1.prems" by simp
      moreover from True ne "1.prems"
      have "replace old new s = new @ replace old new (drop (length old) s)"
        by (simp add: replace.simps [of old new s])
      ultimately show ?thesis
        by (auto simp: endswith_iff)
    next
      case False
      with ne have eq: "replace old new s = hd s # replace old new (tl s)"
        by (simp add: replace.simps [of old new s])
      show ?thesis
      proof (cases q)
        case Nil
        with q "1.prems" have "replace old new s = s"
          by (simp add: replace_id)
        with "1.prems" show ?thesis by simp
      next
        case (Cons c q')
        with q have "endswith (tl s) suf" by (simp add: endswith_iff)
        with "1.IH"(2) ne False "1.prems" have "endswith (replace old new (tl s)) suf"
          by simp
        with eq show ?thesis
          by (auto simp: endswith_iff)
      qed
    qed
  qed
qed

lemma replace_raw_startswith:
  assumes "startswith key ''raw/''"
  shows "startswith (replace ''raw/'' new key) new"
proof -
  from assms have "key \<noteq> []" by (auto simp: startswith_iff)
  with assms have "replace ''raw/'' new key
      = new @ replace ''raw/'' new (drop (length ''raw/'') key)"
    by (subst replace.simps) simp
  then show ?thesis by (simp add: startswith_iff)
qed

lemma startswith_contains: "startswith s p \<Longrightarrow> contains p s"
  by (cases s) auto

lemma map_of_put_object: "map_of (put_object k b s) = (map_of s)(k \<mapsto> b)"
  by (induction s) (auto simp: fun_eq_iff)

lemma put_object_same: "map_of s k = Some b \<Longrightarrow> put_object k b s = s"
  by (induction s) (auto split: if_splits)

lemma keys_put_object: "fst ` set (put_object k b s) = insert k (fst ` set s)"
  by (simp add: dom_map_of_conv_image_fst [symmetric] map_of_put_object)

lemma set_list_objects_v2:
  "set (list_objects_v2 s pre) = {k \<in> fst ` set s. startswith k pre}"
  by (auto simp: list_objects_v2_def)

lemma distinct_list_objects_v2 [simp]: "distinct (list_objects_v2 s pre)"
  by (simp add: list_objects_v2_def)


lemma process_csv_records_None [simp]: "process_csv_records content = None"
  by (simp add: process_csv_records_def Let_def split: prod.splits)

lemma process_xml_records_XmlDoc:
  "process_xml_records (XmlDoc xroot) =
     Inr (filter xml_customer_ok (findall_desc ''Customer'' xroot),
          filter (\<lambda>c. \<not> xml_customer_ok c) (findall_desc ''Customer'' xroot))"
  by (simp add: process_xml_records_def ET_fromstring_def xml_loop_filter)

lemma process_xml_records_Inr:
  assumes "process_xml_records content = Inr (v, i)"
  obtains xroot where "content = XmlDoc xroot"
    "v = filter xml_customer_ok (findall_desc ''Customer'' xroot)"
    "i = filter (\<lambda>c. \<not> xml_customer_ok c) (findall_desc ''Customer'' xroot)"
  using assms
  by (cases content) (auto simp: process_xml_records_def ET_fromstring_def xml_loop_filter)

lemma findall_desc_Element:
  "findall_desc t (Element n x cs) =
     concat (map (\<lambda>c. (if tag c = t then [c] else []) @ findall_desc t c) cs)"
  by (induction cs) (auto simp: findall_desc_def)

lemma findall_build_xml_flat:
  assumes "\<forall>c\<in>set cs. tag c = ''Customer'' \<and> findall_desc ''Customer'' c = []"
  shows "findall_desc ''Customer'' (build_xml cs) = cs"
proof -
  have "concat (map (\<lambda>c. (if tag c = ''Customer'' then [c] else []) @ findall_desc ''Customer'' c) cs)
          = cs"
    using assms by (induction cs) auto
  then show ?thesis
    by (simp add: build_xml_def findall_desc_Element)
qed

lemma tag_findall_desc: "c \<in> set (findall_desc t xroot) \<Longrightarrow> tag c = t"
  by (simp add: findall_desc_def)

lemma process_json_records_JList:
  "process_json_records lib (JsonDoc (JList recs)) =
     Inr (filter (json_record_ok lib) recs, filter (\<lambda>r. \<not> json_record_ok lib r) recs)"
  by (simp add: process_json_records_def json_loads_def then_do_def json_loop_filter)

lemma process_json_records_Inr:
  assumes "process_json_records lib content = Inr (v, i)"
  shows "(\<forall>r\<in>set v. json_record_ok lib r) \<and> (\<forall>r\<in>set i. \<not> json_record_ok lib r)"
  using assms
  by (auto simp: process_json_records_def then_do_def json_loop_filter split: sum.splits)

lemma filter_id_conv': "(\<forall>x\<in>set xs. P x) \<Longrightarrow> filter P xs = xs \<and> filter (\<lambda>x. \<not> P x) xs = []"
  by (induction xs) auto

lemma revalidate_json:
  assumes "process_json_records lib content = Inr (v, i)"
  shows "process_json_records lib (JsonDoc (JList v)) = Inr (v, [])"
    and "process_json_records lib (JsonDoc (JList i)) = Inr ([], i)"
proof -
  from process_json_records_Inr [OF assms]
  have v: "\<forall>r\<in>set v. json_record_ok lib r" and i: "\<forall>r\<in>set i. \<not> json_record_ok lib r"
    by auto
  from v show "process_json_records lib (JsonDoc (JList v)) = Inr (v, [])"
    by (simp add: process_json_records_JList filter_id_conv')
  from i have "filter (json_record_ok lib) i = []" "filter (\<lambda>r. \<not> json_record_ok lib r) i = i"
    by (auto simp: filter_empty_conv filter_id_conv)
  then show "process_json_records lib (JsonDoc (JList i)) = Inr ([], i)"
    by (simp add: process_json_records_JList)
qed

lemma revalidate_xml:
  assumes "process_xml_records content = Inr (v, i)" and "no_nested_customers content"
  shows "process_xml_records (XmlDoc (build_xml v)) = Inr (v, [])"
    and "process_xml_records (XmlDoc (build_xml i)) = Inr ([], i)"
proof -
  from assms(1) obtain xroot where c: "content = XmlDoc xroot"
    and v: "v = filter xml_customer_ok (findall_desc ''Customer'' xroot)"
    and i: "i = filter (\<lambda>c. \<not> xml_customer_ok c) (findall_desc ''Customer'' xroot)"
    by (rule process_xml_records_Inr)
  from assms(2) c have flat: "\<forall>c\<in>set (findall_desc ''Customer'' xroot). findall_desc ''Customer'' c = []"
    by (simp add: no_nested_customers_def list_all_iff)
  have "\<forall>c\<in>set v. tag c = ''Customer'' \<and> findall_desc ''Customer'' c = []"
    using v flat by (auto simp: tag_findall_desc)
  then have fv: "findall_desc ''Customer'' (build_xml v) = v"
    by (rule findall_build_xml_flat)
  have "\<forall>c\<in>set i. tag c = ''Customer'' \<and> findall_desc ''Customer'' c = []"
    using i flat by (auto simp: tag_findall_desc)
  then have fi: "findall_desc ''Customer'' (build_xml i) = i"
    by (rule findall_build_xml_flat)
  from v have "\<forall>c\<in>set v. xml_customer_ok c" by simp
  then show "process_xml_records (XmlDoc (build_xml v)) = Inr (v, [])"
    by (simp add: process_xml_records_XmlDoc fv filter_id_conv')
  from i have "filter xml_customer_ok i = []" "filter (\<lambda>c. \<not> xml_customer_ok c) i = i"
    by (auto simp: filter_empty_conv filter_id_conv)
  then show "process_xml_records (XmlDoc (build_xml i)) = Inr ([], i)"
    by (simp add: process_xml_records_XmlDoc fi)
qed

lemma partition_file_xml:
  assumes "endswith key ''.xml''"
  shows "partition_file lib key content s =
     (case process_xml_records content of
        Inl e \<Rightarrow> Inl e
      | Inr (valid, invalid) \<Rightarrow>
          Inr (write_side (invalid \<noteq> []) (replace ''raw/'' ''error/'' key) (XmlDoc (build_xml invalid))
                 (write_side (valid \<noteq> []) (replace ''raw/'' ''validated/'' key)
                    (XmlDoc (build_xml valid)) s),
               length valid, length invalid))"
  using assms
  by (auto simp: partition_file_def then_do_def write_side_def Let_def split: sum.splits)

lemma partition_file_json:
  assumes "\<not> endswith key ''.xml''" "endswith key ''.json''"
  shows "partition_file lib key content s =
     (case process_json_records lib content of
        Inl e \<Rightarrow> Inl e
      | Inr (valid, invalid) \<Rightarrow>
          Inr (write_side (invalid \<noteq> []) (replace ''raw/'' ''error/'' key) (JsonDoc (JList invalid))
                 (write_side (valid \<noteq> []) (replace ''raw/'' ''validated/'' key)
                    (JsonDoc (JList valid)) s),
               length valid, length invalid))"
  using assms
  by (auto simp: partition_file_def then_do_def write_side_def Let_def split: sum.splits)

lemma partition_file_other:
  assumes "\<not> endswith key ''.xml''" "\<not> endswith key ''.json''"
  shows "partition_file lib key content s =
           (if endswith key ''.csv'' then Inl TypeError else Inr (s, 0, 0))"
  using assms
  by (simp add: partition_file_def then_do_def unpack_pair_def)

lemma partition_file_writes:
  assumes "partition_file lib key content s = Inr (s', tv, ti)"
  shows "\<exists>bv bi. \<forall>t. partition_file lib key content t =
           Inr (write_side (ti > 0) (replace ''raw/'' ''error/'' key) bi
                  (write_side (tv > 0) (replace ''raw/'' ''validated/'' key) bv t), tv, ti)"
proof (cases "endswith key ''.xml''")
  case True
  with assms obtain v i where vi: "process_xml_records content = Inr (v, i)"
    and "tv = length v" "ti = length i"
    by (auto simp: partition_file_xml split: sum.splits)
  with True show ?thesis
    by (auto simp: partition_file_xml)
next
  case nx: False
  show ?thesis
  proof (cases "endswith key ''.json''")
    case True
    with nx assms obtain v i where vi: "process_json_records lib content = Inr (v, i)"
      and "tv = length v" "ti = length i"
      by (auto simp: partition_file_json split: sum.splits)
    with nx True show ?thesis
      by (auto simp: partition_file_json)
  next
    case False
    with nx assms have "tv = 0" "ti = 0"
      by (auto simp: partition_file_other split: if_splits)
    with nx False assms show ?thesis
      by (auto simp: partition_file_other write_side_def split: if_splits)
  qed
qed

section \<open>Properties of the validation stage\<close>

lemma handler_store:
  "s3 (fst (lambda_handler lib ev st)) =
     (case ev of
        [] \<Rightarrow> s3 st
      | r # _ \<Rightarrow>
          (case get_content (s3 st) (snd r) of
             Inl e \<Rightarrow> s3 st
           | Inr content \<Rightarrow>
               (case partition_file lib (snd r) content (s3 st) of
                  Inl e \<Rightarrow> s3 st
                | Inr (s', tv, ti) \<Rightarrow> s')))"
  by (simp add: lambda_handler_def report_validation_failure_def Let_def
      split: list.splits sum.splits prod.splits)

lemma handler_completes:
  assumes "get_content (s3 st) key = Inr content"
    and "partition_file lib key content (s3 st) = Inr (s', tv, ti)"
    and "scan_totals lib s' tv ti = Inr (total_valid, total_invalid)"
  shows "lambda_handler lib ((bucket, key) # others) st =
     (st\<lparr>s3 := s',
         cw_failures := (if total_invalid > 0 then cw_failures st + 1 else cw_failures st),
         glue_runs := (if total_valid > 0
                       then glue_runs st @
                              [\<lparr>DQ_SCORE = dq_score total_valid total_invalid,
                                ERROR_COUNT = total_invalid\<rparr>]
                       else glue_runs st)\<rparr>,
      Inr ''Record-level processing complete'')"
  using assms
  by (simp add: lambda_handler_def report_validation_failure_def Let_def)

lemma write_side_twice:
  assumes "vk \<noteq> ek"
  shows "write_side a ek bi (write_side b vk bv (write_side a ek bi (write_side b vk bv s)))
           = write_side a ek bi (write_side b vk bv s)"
proof -
  have 1: "put_object vk bv (put_object vk bv s) = put_object vk bv s"
    by (simp add: put_object_same map_of_put_object)
  have 2: "put_object ek bi (put_object ek bi s) = put_object ek bi s" for s
    by (simp add: put_object_same map_of_put_object)
  have 3: "put_object vk bv (put_object ek bi (put_object vk bv s)) = put_object ek bi (put_object vk bv s)"
    using assms by (simp add: put_object_same map_of_put_object)
  show ?thesis
    by (simp add: write_side_def 1 2 3)
qed

lemma get_content_cong: "map_of s k = map_of t k \<Longrightarrow> get_content s k = get_content t k"
  by (simp add: get_content_def)

lemma map_of_write_side:
  "map_of (write_side a k b s) k' = (if a \<and> k' = k then Some b else map_of s k')"
  by (simp add: write_side_def map_of_put_object)

lemma rescan_total:
  "rescan count keys tot = Inr n \<Longrightarrow> n = tot + sum_list (map (\<lambda>k. count_of (count k)) keys)"
proof (induction keys arbitrary: tot)
  case Nil
  then show ?case by simp
next
  case (Cons k keys)
  from Cons.prems obtain c where c: "count k = Inr c" and r: "rescan count keys (tot + c) = Inr n"
    by (auto simp: then_do_def split: sum.splits)
  from Cons.IH [OF r] c show ?case
    by (simp add: count_of_def)
qed

text \<open>
  Claim C9, amended. For a source file whose key contains \<^verbatim>\<open>raw/\<close>, running the
  handler a second time on the same event leaves the store as the first run left it. The
  partitioning changes the store only by one write at the validated key when the accepted
  list is not empty, and one write at the error key when the rejected list is not empty;
  the object at the key of an empty side is left as it was.
\<close>

theorem reprocessing_same_partitions:
  assumes "contains ''raw/'' key"
  shows "s3 (fst (lambda_handler lib ((bucket, key) # others)
                    (fst (lambda_handler lib ((bucket, key) # others) st))))
           = s3 (fst (lambda_handler lib ((bucket, key) # others) st))
       \<and> (\<forall>content s' tv ti.
             partition_file lib key content (s3 st) = Inr (s', tv, ti) \<longrightarrow>
               (\<exists>bv bi. s' = write_side (ti > 0) (replace ''raw/'' ''error/'' key) bi
                            (write_side (tv > 0) (replace ''raw/'' ''validated/'' key) bv (s3 st)))
               \<and> (tv = 0 \<longrightarrow> map_of s' (replace ''raw/'' ''validated/'' key)
                                = map_of (s3 st) (replace ''raw/'' ''validated/'' key))
               \<and> (ti = 0 \<longrightarrow> map_of s' (replace ''raw/'' ''error/'' key)
                                = map_of (s3 st) (replace ''raw/'' ''error/'' key)))"
proof (intro conjI allI impI)
  let ?vk = "replace ''raw/'' ''validated/'' key" and ?ek = "replace ''raw/'' ''error/'' key"
  let ?ev = "(bucket, key) # others"
  let ?st1 = "fst (lambda_handler lib ?ev st)"
  from assms have ne: "?vk \<noteq> ?ek" "?vk \<noteq> key" "?ek \<noteq> key"
    by (simp_all add: replace_neq_other replace_neq_self)
  show "s3 (fst (lambda_handler lib ?ev ?st1)) = s3 ?st1"
  proof (cases "get_content (s3 st) key")
    case (Inl e)
    then have "s3 ?st1 = s3 st" by (simp add: handler_store)
    with Inl show ?thesis by (simp add: handler_store [of lib ?ev ?st1])
  next
    case (Inr content)
    show ?thesis
    proof (cases "partition_file lib key content (s3 st)")
      case (Inl e)
      with Inr have "s3 ?st1 = s3 st" by (simp add: handler_store)
      with Inl Inr show ?thesis by (simp add: handler_store [of lib ?ev ?st1])
    next
      case r: (Inr res)
      obtain s' tv ti where res: "res = (s', tv, ti)" by (cases res) auto
      from partition_file_writes [OF r [unfolded res]] obtain bv bi where
        w: "\<And>t. partition_file lib key content t =
                Inr (write_side (ti > 0) ?ek bi (write_side (tv > 0) ?vk bv t), tv, ti)"
        by blast
      let ?W = "\<lambda>t. write_side (ti > 0) ?ek bi (write_side (tv > 0) ?vk bv t)"
      from Inr w have s1: "s3 ?st1 = ?W (s3 st)"
        by (simp add: handler_store)
      have "map_of (?W (s3 st)) key = map_of (s3 st) key"
        using ne by (simp add: map_of_write_side)
      then have "get_content (?W (s3 st)) key = Inr content"
        using Inr by (simp add: get_content_cong [of "?W (s3 st)" key "s3 st"])
      with s1 w have "s3 (fst (lambda_handler lib ?ev ?st1)) = ?W (?W (s3 st))"
        by (simp add: handler_store [of lib ?ev ?st1])
      also have "\<dots> = ?W (s3 st)"
        using ne by (simp add: write_side_twice)
      finally show ?thesis using s1 by simp
    qed
  qed
next
  fix content s' tv ti
  let ?vk = "replace ''raw/'' ''validated/'' key" and ?ek = "replace ''raw/'' ''error/'' key"
  from assms have ne: "?vk \<noteq> ?ek"
    by (simp add: replace_neq_other)
  assume pf: "partition_file lib key content (s3 st) = Inr (s', tv, ti)"
  from partition_file_writes [OF pf] obtain bv bi where
    w: "\<And>t. partition_file lib key content t =
            Inr (write_side (ti > 0) ?ek bi (write_side (tv > 0) ?vk bv t), tv, ti)"
    by blast
  from w [of "s3 st"] pf have s': "s' = write_side (ti > 0) ?ek bi (write_side (tv > 0) ?vk bv (s3 st))"
    by simp
  then show "\<exists>bv bi. s' = write_side (ti > 0) ?ek bi (write_side (tv > 0) ?vk bv (s3 st))"
    by blast
  { assume "tv = 0"
    with s' ne show "map_of s' ?vk = map_of (s3 st) ?vk"
      by (simp add: map_of_write_side) }
  { assume "ti = 0"
    with s' ne show "map_of s' ?ek = map_of (s3 st) ?ek"
      by (simp add: map_of_write_side) }
qed


lemma scan_totals_Inr:
  assumes "scan_totals lib s tv ti = Inr (total_valid, total_invalid)"
  shows "rescan (valid_in lib s) (list_objects_v2 s ''validated/'') tv = Inr total_valid"
    and "rescan (invalid_in lib s) (list_objects_v2 s ''error/'') ti = Inr total_invalid"
  using assms by (auto simp: scan_totals_def then_do_def split: sum.splits)

lemma json_not_xml: "endswith k ''.json'' \<Longrightarrow> \<not> endswith k ''.xml''"
proof
  assume "endswith k ''.json''" and "endswith k ''.xml''"
  then obtain q q' where "k = q @ ''.json''" "k = q' @ ''.xml''"
    by (auto simp: endswith_iff)
  then have "last (q @ ''.json'') = last (q' @ ''.xml'')" by simp
  then show False by simp
qed

lemma get_content_stored:
  "map_of s k = Some b \<Longrightarrow> b \<noteq> NotUtf8 \<Longrightarrow> get_content s k = Inr b"
  by (simp add: get_content_def)

lemma listed:
  "map_of s k = Some b \<Longrightarrow> startswith k pre \<Longrightarrow> k \<in> set (list_objects_v2 s pre)"
  by (auto simp: set_list_objects_v2 dest: map_of_SomeD intro: rev_image_eqI)

lemma sum_list_split:
  assumes "k \<in> set ks" "distinct ks"
  shows "sum_list (map f ks) = (f k :: nat) + sum_list (map f (removeAll k ks))"
  using assms by (simp add: sum_list_map_remove1 distinct_remove1_removeAll)

lemma written_keys:
  assumes "startswith key ''raw/''"
  shows "startswith (replace ''raw/'' ''validated/'' key) ''validated/''"
    and "startswith (replace ''raw/'' ''error/'' key) ''error/''"
    and "replace ''raw/'' ''validated/'' key \<noteq> replace ''raw/'' ''error/'' key"
    and "endswith key suf \<Longrightarrow> CHR ''/'' \<notin> set suf
           \<Longrightarrow> endswith (replace ''raw/'' new key) suf"
proof -
  from assms show "startswith (replace ''raw/'' ''validated/'' key) ''validated/''"
    by (rule replace_raw_startswith)
  from assms show "startswith (replace ''raw/'' ''error/'' key) ''error/''"
    by (rule replace_raw_startswith)
  from assms have "contains ''raw/'' key" by (rule startswith_contains)
  then show "replace ''raw/'' ''validated/'' key \<noteq> replace ''raw/'' ''error/'' key"
    by (simp add: replace_neq_other)
  show "endswith key suf \<Longrightarrow> CHR ''/'' \<notin> set suf \<Longrightarrow> endswith (replace ''raw/'' new key) suf"
    by (simp add: replace_keeps_suffix)
qed

text \<open>What the object just written adds when the rescan reads it back.\<close>

lemma written_counts:
  assumes raw: "startswith key ''raw/''"
    and flat: "no_nested_customers content"
    and pf: "partition_file lib key content s = Inr (s', tv, ti)"
  shows "tv > 0 \<longrightarrow>
           replace ''raw/'' ''validated/'' key \<in> set (list_objects_v2 s' ''validated/'')
           \<and> valid_in lib s' (replace ''raw/'' ''validated/'' key) = Inr tv"
    and "ti > 0 \<longrightarrow>
           replace ''raw/'' ''error/'' key \<in> set (list_objects_v2 s' ''error/'')
           \<and> invalid_in lib s' (replace ''raw/'' ''error/'' key) = Inr ti"
proof -
  let ?vk = "replace ''raw/'' ''validated/'' key" and ?ek = "replace ''raw/'' ''error/'' key"
  note k = written_keys [OF raw]
  have both: "(tv > 0 \<longrightarrow> ?vk \<in> set (list_objects_v2 s' ''validated/'') \<and> valid_in lib s' ?vk = Inr tv)
      \<and> (ti > 0 \<longrightarrow> ?ek \<in> set (list_objects_v2 s' ''error/'') \<and> invalid_in lib s' ?ek = Inr ti)"
  proof (cases "endswith key ''.xml''")
    case True
    with pf obtain v i where vi: "process_xml_records content = Inr (v, i)"
      and s': "s' = write_side (i \<noteq> []) ?ek (XmlDoc (build_xml i))
                      (write_side (v \<noteq> []) ?vk (XmlDoc (build_xml v)) s)"
      and t: "tv = length v" "ti = length i"
      by (auto simp: partition_file_xml split: sum.splits)
    have sv: "endswith ?vk ''.xml''" and se: "endswith ?ek ''.xml''"
      using True by (simp_all add: k(4))
    note re = revalidate_xml [OF vi flat]
    have "tv > 0 \<longrightarrow> ?vk \<in> set (list_objects_v2 s' ''validated/'') \<and> valid_in lib s' ?vk = Inr tv"
    proof
      assume "tv > 0"
      with t have "v \<noteq> []" by auto
      with s' k(3) have m: "map_of s' ?vk = Some (XmlDoc (build_xml v))"
        by (simp add: map_of_write_side)
      from m k(1) have "?vk \<in> set (list_objects_v2 s' ''validated/'')"
        by (rule listed)
      moreover from m have "get_content s' ?vk = Inr (XmlDoc (build_xml v))"
        by (simp add: get_content_stored)
      then have "valid_in lib s' ?vk = Inr tv"
        using sv re(1) t by (simp add: valid_in_def then_do_def)
      ultimately show "?vk \<in> set (list_objects_v2 s' ''validated/'') \<and> valid_in lib s' ?vk = Inr tv"
        by simp
    qed
    moreover
    have "ti > 0 \<longrightarrow> ?ek \<in> set (list_objects_v2 s' ''error/'') \<and> invalid_in lib s' ?ek = Inr ti"
    proof
      assume "ti > 0"
      with t have "i \<noteq> []" by auto
      with s' have m: "map_of s' ?ek = Some (XmlDoc (build_xml i))"
        by (simp add: map_of_write_side)
      from m k(2) have "?ek \<in> set (list_objects_v2 s' ''error/'')"
        by (rule listed)
      moreover from m have "get_content s' ?ek = Inr (XmlDoc (build_xml i))"
        by (simp add: get_content_stored)
      then have "invalid_in lib s' ?ek = Inr ti"
        using se re(2) t by (simp add: invalid_in_def then_do_def)
      ultimately show "?ek \<in> set (list_objects_v2 s' ''error/'') \<and> invalid_in lib s' ?ek = Inr ti"
        by simp
    qed
    ultimately show ?thesis by simp
  next
    case nx: False
    show ?thesis
    proof (cases "endswith key ''.json''")
      case True
      with nx pf obtain v i where vi: "process_json_records lib content = Inr (v, i)"
        and s': "s' = write_side (i \<noteq> []) ?ek (JsonDoc (JList i))
                        (write_side (v \<noteq> []) ?vk (JsonDoc (JList v)) s)"
        and t: "tv = length v" "ti = length i"
        by (auto simp: partition_file_json split: sum.splits)
      have sv: "endswith ?vk ''.json''" and se: "endswith ?ek ''.json''"
        using True by (simp_all add: k(4))
      then have nv: "\<not> endswith ?vk ''.xml''" and ne: "\<not> endswith ?ek ''.xml''"
        by (simp_all add: json_not_xml)
      note re = revalidate_json [OF vi]
      have "tv > 0 \<longrightarrow> ?vk \<in> set (list_objects_v2 s' ''validated/'') \<and> valid_in lib s' ?vk = Inr tv"
      proof
        assume "tv > 0"
        with t have "v \<noteq> []" by auto
        with s' k(3) have m: "map_of s' ?vk = Some (JsonDoc (JList v))"
          by (simp add: map_of_write_side)
        from m k(1) have "?vk \<in> set (list_objects_v2 s' ''validated/'')"
          by (rule listed)
        moreover from m have "get_content s' ?vk = Inr (JsonDoc (JList v))"
          by (simp add: get_content_stored)
        then have "valid_in lib s' ?vk = Inr tv"
          using sv nv re(1) t by (simp add: valid_in_def then_do_def)
        ultimately show "?vk \<in> set (list_objects_v2 s' ''validated/'') \<and> valid_in lib s' ?vk = Inr tv"
          by simp
      qed
      moreover
      have "ti > 0 \<longrightarrow> ?ek \<in> set (list_objects_v2 s' ''error/'') \<and> invalid_in lib s' ?ek = Inr ti"
      proof
        assume "ti > 0"
        with t have "i \<noteq> []" by auto
        with s' have m: "map_of s' ?ek = Some (JsonDoc (JList i))"
          by (simp add: map_of_write_side)
        from m k(2) have "?ek \<in> set (list_objects_v2 s' ''error/'')"
          by (rule listed)
        moreover from m have "get_content s' ?ek = Inr (JsonDoc (JList i))"
          by (simp add: get_content_stored)
        then have "invalid_in lib s' ?ek = Inr ti"
          using se ne re(2) t by (simp add: invalid_in_def then_do_def)
        ultimately show "?ek \<in> set (list_objects_v2 s' ''error/'') \<and> invalid_in lib s' ?ek = Inr ti"
          by simp
      qed
      ultimately show ?thesis by simp
    next
      case False
      with nx pf have "tv = 0" "ti = 0"
        by (auto simp: partition_file_other split: if_splits)
      then show ?thesis by simp
    qed
  qed
  from both show "tv > 0 \<longrightarrow> ?vk \<in> set (list_objects_v2 s' ''validated/'') \<and> valid_in lib s' ?vk = Inr tv"
    by simp
  from both show "ti > 0 \<longrightarrow> ?ek \<in> set (list_objects_v2 s' ''error/'') \<and> invalid_in lib s' ?ek = Inr ti"
    by simp
qed

text \<open>
  Claim C10, amended. For a file whose key starts with \<^verbatim>\<open>raw/\<close> and whose
  \<^verbatim>\<open>Customer\<close> elements are not nested (no condition on a JSON file), in an invocation
  whose rescans complete: when the accepted list is not empty, the total of accepted
  records is twice the accepted count of the current file plus what the other objects
  under \<^verbatim>\<open>validated/\<close> add; when the rejected list is not empty, the total of
  rejected records is twice the rejected count of the current file plus what the other
  objects under \<^verbatim>\<open>error/\<close> add; and these two totals are the ones the quality score
  and the error count of the started job are computed from.
\<close>

theorem current_file_counted_twice:
  assumes raw: "startswith key ''raw/''"
    and flat: "no_nested_customers content"
    and gc: "get_content (s3 st) key = Inr content"
    and pf: "partition_file lib key content (s3 st) = Inr (s', tv, ti)"
    and sc: "scan_totals lib s' tv ti = Inr (total_valid, total_invalid)"
  shows "(tv > 0 \<longrightarrow>
            total_valid = 2 * tv +
              sum_list (map (\<lambda>k. count_of (valid_in lib s' k))
                (removeAll (replace ''raw/'' ''validated/'' key) (list_objects_v2 s' ''validated/''))))
       \<and> (ti > 0 \<longrightarrow>
            total_invalid = 2 * ti +
              sum_list (map (\<lambda>k. count_of (invalid_in lib s' k))
                (removeAll (replace ''raw/'' ''error/'' key) (list_objects_v2 s' ''error/''))))
       \<and> glue_runs (fst (lambda_handler lib ((bucket, key) # others) st)) =
            (if total_valid > 0
             then glue_runs st @
                    [\<lparr>DQ_SCORE = dq_score total_valid total_invalid, ERROR_COUNT = total_invalid\<rparr>]
             else glue_runs st)"
proof (intro conjI impI)
  let ?vk = "replace ''raw/'' ''validated/'' key" and ?ek = "replace ''raw/'' ''error/'' key"
  note w = written_counts [OF raw flat pf]
  note r = scan_totals_Inr [OF sc]
  { assume "tv > 0"
    with w(1) have "?vk \<in> set (list_objects_v2 s' ''validated/'')"
      and c: "count_of (valid_in lib s' ?vk) = tv"
      by (simp_all add: count_of_def)
    then have "sum_list (map (\<lambda>k. count_of (valid_in lib s' k)) (list_objects_v2 s' ''validated/''))
        = tv + sum_list (map (\<lambda>k. count_of (valid_in lib s' k))
                   (removeAll ?vk (list_objects_v2 s' ''validated/'')))"
      by (simp add: sum_list_split [of ?vk])
    with rescan_total [OF r(1)]
    show "total_valid = 2 * tv + sum_list (map (\<lambda>k. count_of (valid_in lib s' k))
                   (removeAll ?vk (list_objects_v2 s' ''validated/'')))"
      by simp }
  { assume "ti > 0"
    with w(2) have "?ek \<in> set (list_objects_v2 s' ''error/'')"
      and c: "count_of (invalid_in lib s' ?ek) = ti"
      by (simp_all add: count_of_def)
    then have "sum_list (map (\<lambda>k. count_of (invalid_in lib s' k)) (list_objects_v2 s' ''error/''))
        = ti + sum_list (map (\<lambda>k. count_of (invalid_in lib s' k))
                   (removeAll ?ek (list_objects_v2 s' ''error/'')))"
      by (simp add: sum_list_split [of ?ek])
    with rescan_total [OF r(2)]
    show "total_invalid = 2 * ti + sum_list (map (\<lambda>k. count_of (invalid_in lib s' k))
                   (removeAll ?ek (list_objects_v2 s' ''error/'')))"
      by simp }
  show "glue_runs (fst (lambda_handler lib ((bucket, key) # others) st)) =
            (if total_valid > 0
             then glue_runs st @
                    [\<lparr>DQ_SCORE = dq_score total_valid total_invalid, ERROR_COUNT = total_invalid\<rparr>]
             else glue_runs st)"
    by (simp add: handler_completes [OF gc pf sc])
qed

lemma early_exit_starts_no_job:
  assumes "snd (lambda_handler lib ev st) \<noteq> Inr ''Record-level processing complete''"
  shows "glue_runs (fst (lambda_handler lib ev st)) = glue_runs st"
  using assms
  by (auto simp: lambda_handler_def report_validation_failure_def Let_def
      split: list.splits sum.splits prod.splits if_splits)

text \<open>
  Claim C2, amended. In an invocation that reaches the trigger (the file was read and
  validated, and both rescans completed), the job is started iff \<^verbatim>\<open>total_valid\<close> is
  positive, where \<^verbatim>\<open>total_valid\<close> is the accepted count of the current file plus the
  accepted counts found by validating again every object under \<^verbatim>\<open>validated/\<close>; the
  job receives the quality score and the rejected total. So a file with an accepted record
  always starts the job.
\<close>

theorem trigger_follows_corpus_total:
  assumes gc: "get_content (s3 st) key = Inr content"
    and pf: "partition_file lib key content (s3 st) = Inr (s', tv, ti)"
    and sc: "scan_totals lib s' tv ti = Inr (total_valid, total_invalid)"
  shows "snd (lambda_handler lib ((bucket, key) # others) st) = Inr ''Record-level processing complete''
       \<and> glue_runs (fst (lambda_handler lib ((bucket, key) # others) st)) =
            (if total_valid > 0
             then glue_runs st @
                    [\<lparr>DQ_SCORE = dq_score total_valid total_invalid, ERROR_COUNT = total_invalid\<rparr>]
             else glue_runs st)
       \<and> total_valid = tv + sum_list (map (\<lambda>k. count_of (valid_in lib s' k))
                                 (list_objects_v2 s' ''validated/''))
       \<and> total_invalid = ti + sum_list (map (\<lambda>k. count_of (invalid_in lib s' k))
                                   (list_objects_v2 s' ''error/''))
       \<and> (tv > 0 \<longrightarrow> glue_runs (fst (lambda_handler lib ((bucket, key) # others) st)) \<noteq> glue_runs st)"
proof -
  note r = scan_totals_Inr [OF sc]
  have tvs: "total_valid = tv + sum_list (map (\<lambda>k. count_of (valid_in lib s' k))
                                 (list_objects_v2 s' ''validated/''))"
    by (rule rescan_total [OF r(1)])
  have tis: "total_invalid = ti + sum_list (map (\<lambda>k. count_of (invalid_in lib s' k))
                                   (list_objects_v2 s' ''error/''))"
    by (rule rescan_total [OF r(2)])
  from tvs have "tv > 0 \<longrightarrow> total_valid > 0" by simp
  with tvs tis show ?thesis
    by (simp add: handler_completes [OF gc pf sc])
qed

theorem trigger_follows_corpus_total_witness:
  "snd (lambda_handler lib0 [(''bucket'', ''raw/p.json'')] mixed_upload)
     = Inr ''Record-level processing complete''
   \<and> glue_runs (fst (lambda_handler lib0 [(''bucket'', ''raw/p.json'')] mixed_upload))
     = [\<lparr>DQ_SCORE = 50, ERROR_COUNT = 2\<rparr>]"
proof -
  have gc: "get_content (s3 mixed_upload) ''raw/p.json'' = Inr mixed_body"
    by code_simp
  have pf: "partition_file lib0 ''raw/p.json'' mixed_body (s3 mixed_upload) = Inr (mixed_store, 1, 1)"
    by code_simp
  have sc: "scan_totals lib0 mixed_store 1 1 = Inr (2, 2)"
    by code_simp
  from trigger_follows_corpus_total [OF gc pf sc, of "''bucket''" "[]"] show ?thesis
    by (simp add: dq_score_def mixed_upload_def)
qed

text \<open>
  Claim C2, as stated, fails: the uploaded file yields no accepted record and one rejected
  record, an earlier file under \<^verbatim>\<open>validated/\<close> holds one accepted record, and the
  job is started.
\<close>

theorem rejected_only_file_starts_job:
  "process_json_records lib0 (JsonDoc (JList [purchase (JInt (- 5))]))
     = Inr ([], [purchase (JInt (- 5))])
   \<and> glue_runs (fst (lambda_handler lib0 [(''bucket'', ''raw/b.json'')] rejected_only_upload))
     = [\<lparr>DQ_SCORE = 100 / 3, ERROR_COUNT = 2\<rparr>]"
  by code_simp

theorem reprocessing_same_partitions_witness:
  "contains ''raw/'' ''raw/p.json''
   \<and> s3 (fst (lambda_handler lib0 [(''bucket'', ''raw/p.json'')] mixed_upload)) = mixed_store
   \<and> s3 (fst (lambda_handler lib0 [(''bucket'', ''raw/p.json'')]
               (fst (lambda_handler lib0 [(''bucket'', ''raw/p.json'')] mixed_upload))))
       = mixed_store"
proof -
  have c: "contains ''raw/'' ''raw/p.json''"
    by code_simp
  have one: "s3 (fst (lambda_handler lib0 [(''bucket'', ''raw/p.json'')] mixed_upload)) = mixed_store"
    by code_simp
  from reprocessing_same_partitions [OF c, of lib0 "''bucket''" "[]" mixed_upload] c one
  show ?thesis by simp
qed

text \<open>
  Claim C9, as stated, fails for a file whose key has no \<^verbatim>\<open>raw/\<close>: both sides are
  written over the source object itself, and the second run, reading what the first one
  wrote, writes a rejected partition with one more element.
\<close>

theorem unrouted_key_not_idempotent:
  "s3 (fst (lambda_handler lib0 [(''bucket'', ''c.xml'')] unrouted_upload))
     = [(''c.xml'', XmlDoc (Element ''Customers'' None
          [Element ''Customer'' None [Element ''Customer'' None []],
           Element ''Customer'' None []]))]
   \<and> s3 (fst (lambda_handler lib0 [(''bucket'', ''c.xml'')]
               (fst (lambda_handler lib0 [(''bucket'', ''c.xml'')] unrouted_upload))))
     = [(''c.xml'', XmlDoc (Element ''Customers'' None
          [Element ''Customer'' None [Element ''Customer'' None []],
           Element ''Customer'' None [], Element ''Customer'' None []]))]"
  by code_simp

theorem current_file_counted_twice_witness:
  "partition_file lib0 ''raw/p.json'' mixed_body (s3 mixed_upload) = Inr (mixed_store, 1, 1)
   \<and> scan_totals lib0 mixed_store 1 1 = Inr (2, 2)
   \<and> (2 :: nat) = 2 * 1 +
        sum_list (map (\<lambda>k. count_of (valid_in lib0 mixed_store k))
          (removeAll (replace ''raw/'' ''validated/'' ''raw/p.json'')
             (list_objects_v2 mixed_store ''validated/'')))
   \<and> (2 :: nat) = 2 * 1 +
        sum_list (map (\<lambda>k. count_of (invalid_in lib0 mixed_store k))
          (removeAll (replace ''raw/'' ''error/'' ''raw/p.json'')
             (list_objects_v2 mixed_store ''error/'')))"
proof -
  have raw: "startswith ''raw/p.json'' ''raw/''"
    by simp
  have flat: "no_nested_customers mixed_body"
    by (simp add: no_nested_customers_def mixed_body_def)
  have gc: "get_content (s3 mixed_upload) ''raw/p.json'' = Inr mixed_body"
    by code_simp
  have pf: "partition_file lib0 ''raw/p.json'' mixed_body (s3 mixed_upload) = Inr (mixed_store, 1, 1)"
    by code_simp
  have sc: "scan_totals lib0 mixed_store 1 1 = Inr (2, 2)"
    by code_simp
  from current_file_counted_twice [OF raw flat gc pf sc] pf sc show ?thesis
    by simp
qed

text \<open>
  Claim C10, as stated, fails in two ways. A document whose accepted \<^verbatim>\<open>Customer\<close>
  element holds another accepted one has two accepted records, and the rescan of the
  object written for it finds three: the total is five, not four. A file whose key does
  not start with \<^verbatim>\<open>raw/\<close> is written outside the prefix \<^verbatim>\<open>validated/\<close>: the rescan
  does not read it and its accepted record counts once.
\<close>

theorem rescan_not_always_double:
  "partition_file lib0 ''raw/c.xml'' (XmlDoc nested_valid) [] = Inr (nested_store, 2, 0)
   \<and> scan_totals lib0 nested_store 2 0 = Inr (5, 0)
   \<and> partition_file lib0 ''inbox/raw/p.json'' (JsonDoc (JList [purchase (JInt 5)])) []
       = Inr (inbox_store, 1, 0)
   \<and> scan_totals lib0 inbox_store 1 0 = Inr (1, 0)"
  by code_simp

end
